theory Spec2Isabelle
  imports Main "HOL-Library.Word"
begin

section \<open>Custom kernels: paddle/fluid/framework/custom_kernel.cc\<close>

text \<open>
  A shallow embedding of the four functions of \<^verbatim>\<open>custom_kernel.cc\<close>:
  \<^verbatim>\<open>ParseArgs\<close>, \<^verbatim>\<open>RunKernelFunc\<close>, \<^verbatim>\<open>RegisterKernelWithMetaInfo\<close>
  (with \<^verbatim>\<open>RegisterKernelWithMetaInfoMap\<close>) and \<^verbatim>\<open>LoadCustomKernelLib\<close>.

  Conventions.
  \<^item> A C++ exception is the outcome \<open>Thrown e s\<close>, where \<open>s\<close> is the state the
    exception leaves behind; a normal return is \<open>Done s\<close>.
  \<^item> A \<^verbatim>\<open>for\<close> loop is \<open>for_each body indices\<close>; it stops at the first exception.
  \<^item> \<^verbatim>\<open>VLOG(3)\<close> tracing is not part of the model; \<^verbatim>\<open>LOG(ERROR)\<close>,
    \<^verbatim>\<open>LOG(WARNING)\<close> and \<^verbatim>\<open>LOG(INFO)\<close> are events of a trace, and so is the
    call of the user's kernel function.
  \<^item> The preprocessor symbols \<^verbatim>\<open>PADDLE_WITH_CUSTOM_DEVICE\<close> and \<^verbatim>\<open>_LINUX\<close> are
    booleans of a build configuration.
\<close>

subsection \<open>Outcomes and loops\<close>

datatype error = InvalidArgument | Unimplemented | AccessFault

datatype 's outcome = Done 's | Thrown error 's

fun for_each :: "('a \<Rightarrow> 's \<Rightarrow> 's outcome) \<Rightarrow> 'a list \<Rightarrow> 's \<Rightarrow> 's outcome" where
  "for_each body [] s = Done s"
| "for_each body (x # xs) s =
     (case body x s of
        Done s' \<Rightarrow> for_each body xs s'
      | Thrown e s' \<Rightarrow> Thrown e s')"

subsection \<open>Opaque identifiers of the framework\<close>

type_synonym Backend = nat
type_synonym DataLayout = nat
type_synonym DataType = nat
type_synonym addr = nat
type_synonym stream_t = nat

text \<open>
  \<^verbatim>\<open>std::type_index\<close>: the types \<^verbatim>\<open>RunKernelFunc\<close> and \<^verbatim>\<open>ParseArgs\<close> name, and
  every other type under its name. \<^verbatim>\<open>typeid\<close> drops references and const, so
  \<^verbatim>\<open>typeid(const Scalar&)\<close> is \<open>T_Scalar\<close>.
\<close>

datatype std_type_index =
    T_bool | T_int | T_float | T_double | T_int64_t | T_float16 | T_DataType
  | T_Scalar | T_vector_int64_t | T_ScalarArray | T_vector_int
  | T_DenseTensor | T_vector_DenseTensor
  | T_other string

text \<open>\<^verbatim>\<open>paddle::any\<close>: a value together with the type it was stored at.\<close>

datatype 'v paddle_any = Any (held_type: std_type_index) (held_value: 'v)

subsection \<open>Shared tensors and the plugin-facing handle\<close>

text \<open>
  The \<^verbatim>\<open>phi::DenseTensor\<close> objects owned by a \<^verbatim>\<open>std::shared_ptr\<close> live in a store;
  \<^verbatim>\<open>std::make_shared<phi::DenseTensor>(t)\<close> copies \<open>t\<close> to the next free address.
  A \<^verbatim>\<open>paddle::experimental::Tensor\<close> is a handle: it holds the address set by
  \<^verbatim>\<open>set_impl\<close>.
\<close>

record 't heap =
  cells :: "addr \<Rightarrow> 't"
  next_addr :: addr

definition make_shared :: "'t \<Rightarrow> 't heap \<Rightarrow> addr \<times> 't heap" where
  "make_shared t h =
     (next_addr h, \<lparr>cells = (cells h)(next_addr h := t), next_addr = Suc (next_addr h)\<rparr>)"

datatype Tensor = Tensor (impl: addr)

record DeviceContext =
  stream :: "stream_t option"

definition default_DeviceContext :: DeviceContext where
  "default_DeviceContext = \<lparr>stream = None\<rparr>"

definition set_stream :: "DeviceContext \<Rightarrow> stream_t \<Rightarrow> DeviceContext" where
  "set_stream d s = d\<lparr>stream := Some s\<rparr>"

subsection \<open>phi::KernelContext\<close>

text \<open>
  Modelled from the spec: \<^verbatim>\<open>phi::KernelContext\<close> (paddle/phi/core/kernel_context.h is
  not among the sources). The spec's ExecutionContext holds flat arrays of input and
  output tensor slots, a flat array of attribute boxes, and range tables mapping a logical
  input or output index to a half-open range of slot indices. An input slot that was moved
  out is \<open>None\<close>. What the spec leaves undefined (an index outside an array, a box read at
  another type than it holds, a slot read after it was moved out) is \<open>None\<close> of the
  accessor, which \<^verbatim>\<open>RunKernelFunc\<close> turns into \<open>Thrown AccessFault\<close>.
  A pointer to an output slot is the slot's index.
\<close>

record ('t, 'v) KernelContext =
  inputs :: "'t option list"
  outputs :: "'t list"
  attrs :: "'v paddle_any list"
  input_range :: "(nat \<times> nat) list"
  output_range :: "(nat \<times> nat) list"
  device_stream :: stream_t

definition InputsSize :: "('t, 'v) KernelContext \<Rightarrow> nat" where
  "InputsSize c = length (inputs c)"

definition OutputsSize :: "('t, 'v) KernelContext \<Rightarrow> nat" where
  "OutputsSize c = length (outputs c)"

definition AttrsSize :: "('t, 'v) KernelContext \<Rightarrow> nat" where
  "AttrsSize c = length (attrs c)"

definition InputRangeAt :: "('t, 'v) KernelContext \<Rightarrow> nat \<Rightarrow> (nat \<times> nat) option" where
  "InputRangeAt c idx =
     (if idx < length (input_range c) then Some (input_range c ! idx) else None)"

definition OutputRangeAt :: "('t, 'v) KernelContext \<Rightarrow> nat \<Rightarrow> (nat \<times> nat) option" where
  "OutputRangeAt c idx =
     (if idx < length (output_range c) then Some (output_range c ! idx) else None)"

definition InputAt :: "('t, 'v) KernelContext \<Rightarrow> nat \<Rightarrow> 't option" where
  "InputAt c idx = (if idx < length (inputs c) then inputs c ! idx else None)"

definition slots_present :: "'t option list \<Rightarrow> nat \<Rightarrow> nat \<Rightarrow> bool" where
  "slots_present xs start end =
     list_all (\<lambda>i. i < length xs \<and> xs ! i \<noteq> None) [start..<end]"

definition MoveInputsBetween ::
  "('t, 'v) KernelContext \<Rightarrow> nat \<Rightarrow> nat \<Rightarrow> ('t list \<times> ('t, 'v) KernelContext) option" where
  "MoveInputsBetween c start end =
     (if slots_present (inputs c) start end then
        Some (map (\<lambda>i. the (inputs c ! i)) [start..<end],
              c\<lparr>inputs := map (\<lambda>i. if start \<le> i \<and> i < end then None else inputs c ! i)
                               [0..<length (inputs c)]\<rparr>)
      else None)"

definition MutableOutputAt :: "('t, 'v) KernelContext \<Rightarrow> nat \<Rightarrow> nat option" where
  "MutableOutputAt c idx = (if idx < length (outputs c) then Some idx else None)"

definition MutableOutputBetween :: "('t, 'v) KernelContext \<Rightarrow> nat \<Rightarrow> nat \<Rightarrow> nat list option" where
  "MutableOutputBetween c start end =
     (if list_all (\<lambda>i. i < length (outputs c)) [start..<end] then Some [start..<end]
      else None)"

definition AttrAt :: "('t, 'v) KernelContext \<Rightarrow> std_type_index \<Rightarrow> nat \<Rightarrow> 'v option" where
  "AttrAt c T idx =
     (if idx < length (attrs c) \<and> held_type (attrs c ! idx) = T
      then Some (held_value (attrs c ! idx)) else None)"

definition assign_output :: "('t, 'v) KernelContext \<Rightarrow> nat \<Rightarrow> 't \<Rightarrow> ('t, 'v) KernelContext" where
  "assign_output c p t = c\<lparr>outputs := (outputs c)[p := t]\<rparr>"

subsection \<open>OpKernelInfo\<close>

text \<open>
  Modelled from the spec: \<^verbatim>\<open>paddle::OpKernelInfo\<close> and the getters of
  \<^verbatim>\<open>OpKernelInfoHelper\<close> (paddle/phi/api/ext/op_kernel_info.h and
  op_kernel_info_helper.h are not among the sources). The spec's KernelSignature: ordered
  input, output and attribute specs, the user function, the backend, and the kernel key
  made of the op name's discriminators backend, layout and dtype.

  The user function receives the device context, the input handles, the boxed attributes
  and pointers to the vectors of output handles. It can write to every shared tensor it
  reaches and rebind or replace the output handles, so it is a function of the store and
  of the output handles to their values after the call.
\<close>

record TensorArgDef =
  backend :: Backend
  layout :: DataLayout
  dtype :: DataType
  is_vector :: bool

record AttributeArgDef =
  type_index :: std_type_index

type_synonym ('t, 'v) CustomKernelFunc =
  "DeviceContext \<Rightarrow> Tensor list \<Rightarrow> Tensor list list \<Rightarrow> 'v paddle_any list
     \<Rightarrow> Tensor list \<times> Tensor list list \<times> 't heap
     \<Rightarrow> Tensor list \<times> Tensor list list \<times> 't heap"

record ('t, 'v) OpKernelInfo =
  op_name :: string
  kernel_backend :: Backend
  kernel_layout :: DataLayout
  kernel_dtype :: DataType
  input_defs :: "TensorArgDef list"
  output_defs :: "TensorArgDef list"
  attribute_defs :: "AttributeArgDef list"
  kernel_fn :: "('t, 'v) CustomKernelFunc"
  variadic_kernel_fn :: addr

type_synonym KernelKey = "Backend \<times> DataLayout \<times> DataType"

definition GetKernelKey :: "('t, 'v) OpKernelInfo \<Rightarrow> KernelKey" where
  "GetKernelKey info = (kernel_backend info, kernel_layout info, kernel_dtype info)"

subsection \<open>ParseArgs\<close>

text \<open>
  Modelled from the spec: \<^verbatim>\<open>phi::KernelArgsDef\<close> with its three \<^verbatim>\<open>Append\<close> methods
  (paddle/phi/core/kernel_factory.h is not among the sources): the dispatch table's
  argument-definition record, three ordered lists.
\<close>

record phi_TensorArgDef =
  arg_backend :: Backend
  arg_layout :: DataLayout
  arg_dtype :: DataType
  arg_type_index :: std_type_index

record KernelArgsDef =
  args_input_defs :: "phi_TensorArgDef list"
  args_output_defs :: "phi_TensorArgDef list"
  args_attribute_defs :: "std_type_index list"

definition empty_KernelArgsDef :: KernelArgsDef where
  "empty_KernelArgsDef =
     \<lparr>args_input_defs = [], args_output_defs = [], args_attribute_defs = []\<rparr>"

definition AppendInput ::
  "Backend \<Rightarrow> DataLayout \<Rightarrow> DataType \<Rightarrow> std_type_index \<Rightarrow> KernelArgsDef \<Rightarrow> KernelArgsDef" where
  "AppendInput b l d ti a =
     a\<lparr>args_input_defs := args_input_defs a @
         [\<lparr>arg_backend = b, arg_layout = l, arg_dtype = d, arg_type_index = ti\<rparr>]\<rparr>"

definition AppendOutput ::
  "Backend \<Rightarrow> DataLayout \<Rightarrow> DataType \<Rightarrow> std_type_index \<Rightarrow> KernelArgsDef \<Rightarrow> KernelArgsDef" where
  "AppendOutput b l d ti a =
     a\<lparr>args_output_defs := args_output_defs a @
         [\<lparr>arg_backend = b, arg_layout = l, arg_dtype = d, arg_type_index = ti\<rparr>]\<rparr>"

definition AppendAttribute :: "std_type_index \<Rightarrow> KernelArgsDef \<Rightarrow> KernelArgsDef" where
  "AppendAttribute ti a = a\<lparr>args_attribute_defs := args_attribute_defs a @ [ti]\<rparr>"

definition tensor_type_index :: "TensorArgDef \<Rightarrow> std_type_index" where
  "tensor_type_index d = (if is_vector d then T_vector_DenseTensor else T_DenseTensor)"

definition ParseArgs :: "('t, 'v) OpKernelInfo \<Rightarrow> KernelArgsDef \<Rightarrow> KernelArgsDef" where
  "ParseArgs op_kernel_info args_def =
     (let a1 = fold (\<lambda>input. AppendInput (backend input) (layout input) (dtype input)
                                 (tensor_type_index input))
                    (input_defs op_kernel_info) args_def;
          a2 = fold (\<lambda>output. AppendOutput (backend output) (layout output) (dtype output)
                                 (tensor_type_index output))
                    (output_defs op_kernel_info) a1
      in fold (\<lambda>attr. AppendAttribute (type_index attr)) (attribute_defs op_kernel_info) a2)"

subsection \<open>RunKernelFunc\<close>

text \<open>
  The build configuration and the parts of phi the function reads: the two preprocessor
  symbols, the values of \<^verbatim>\<open>phi::Backend::CPU\<close> and \<^verbatim>\<open>phi::Backend::ALL_BACKEND\<close>, and
  \<^verbatim>\<open>phi::GetGlobalDeviceType\<close> (the global device-type table), all taken as parameters.
\<close>

record Config =
  PADDLE_WITH_CUSTOM_DEVICE :: bool
  LINUX :: bool
  Backend_CPU :: Backend
  Backend_ALL_BACKEND :: Backend
  GetGlobalDeviceType :: "64 word \<Rightarrow> string"

datatype severity = INFO | WARNING | ERROR

datatype 'v event =
    LOG severity string
  | CALL_user_kernel_fn DeviceContext "Tensor list" "Tensor list list" "'v paddle_any list"
      "Tensor list" "Tensor list list"

text \<open>The context, the store and the local variables of \<^verbatim>\<open>RunKernelFunc\<close>.\<close>

record ('t, 'v) frame =
  ctx :: "('t, 'v) KernelContext"
  mem :: "'t heap"
  custom_ins :: "Tensor list"
  custom_vec_ins :: "Tensor list list"
  custom_attrs :: "'v paddle_any list"
  custom_outs :: "Tensor list"
  custom_vec_outs :: "Tensor list list"
  custom_outs_ptr :: "addr list"
  custom_vec_outs_ptr :: "addr list list"

definition enter :: "('t, 'v) KernelContext \<Rightarrow> 't heap \<Rightarrow> ('t, 'v) frame" where
  "enter c m =
     \<lparr>ctx = c, mem = m, custom_ins = [], custom_vec_ins = [], custom_attrs = [],
      custom_outs = [], custom_vec_outs = [], custom_outs_ptr = [],
      custom_vec_outs_ptr = []\<rparr>"

definition and_then :: "'s outcome \<Rightarrow> ('s \<Rightarrow> 's outcome) \<Rightarrow> 's outcome" where
  "and_then r f = (case r of Done s \<Rightarrow> f s | Thrown e s \<Rightarrow> Thrown e s)"

text \<open>Inputs mapping (lines 106 to 131): the body of the loop over \<open>in_idx\<close>.\<close>

definition wrap_inputs :: "'t list \<Rightarrow> 't heap \<Rightarrow> Tensor list \<times> 't heap" where
  "wrap_inputs ctx_tensor_vec m =
     fold (\<lambda>ctx_tensor (custom_vec_in, h).
             case make_shared ctx_tensor h of
               (p, h') \<Rightarrow> (custom_vec_in @ [Tensor p], h'))
          ctx_tensor_vec ([], m)"

definition inputs_step :: "('t, 'v) OpKernelInfo \<Rightarrow> nat \<Rightarrow> ('t, 'v) frame \<Rightarrow> ('t, 'v) frame outcome" where
  "inputs_step op_kernel_info in_idx fr =
     (case InputRangeAt (ctx fr) in_idx of
        None \<Rightarrow> Thrown AccessFault fr
      | Some rng \<Rightarrow>
          if \<not> is_vector (input_defs op_kernel_info ! in_idx) then
            (case InputAt (ctx fr) (fst rng) of
               None \<Rightarrow> Thrown AccessFault fr
             | Some ctx_tensor \<Rightarrow>
                 (case make_shared ctx_tensor (mem fr) of
                    (p, h) \<Rightarrow> Done (fr\<lparr>mem := h, custom_ins := custom_ins fr @ [Tensor p]\<rparr>)))
          else
            (case MoveInputsBetween (ctx fr) (fst rng) (snd rng) of
               None \<Rightarrow> Thrown AccessFault fr
             | Some (ctx_tensor_vec, c) \<Rightarrow>
                 (case wrap_inputs ctx_tensor_vec (mem fr) of
                    (custom_vec_in, h) \<Rightarrow>
                      Done (fr\<lparr>ctx := c, mem := h,
                               custom_vec_ins := custom_vec_ins fr @ [custom_vec_in]\<rparr>))))"

text \<open>Attributes mapping (lines 134 to 187): the chain of eleven type tests, in order.\<close>

definition read_attr :: "std_type_index \<Rightarrow> nat \<Rightarrow> ('t, 'v) frame \<Rightarrow> ('t, 'v) frame outcome" where
  "read_attr T attr_idx fr =
     (case AttrAt (ctx fr) T attr_idx of
        None \<Rightarrow> Thrown AccessFault fr
      | Some arg \<Rightarrow> Done (fr\<lparr>custom_attrs := custom_attrs fr @ [Any T arg]\<rparr>))"

definition attrs_step :: "('t, 'v) OpKernelInfo \<Rightarrow> nat \<Rightarrow> ('t, 'v) frame \<Rightarrow> ('t, 'v) frame outcome" where
  "attrs_step op_kernel_info attr_idx fr =
     (let ti = type_index (attribute_defs op_kernel_info ! attr_idx) in
      if ti = T_bool then read_attr T_bool attr_idx fr
      else if ti = T_int then read_attr T_int attr_idx fr
      else if ti = T_float then read_attr T_float attr_idx fr
      else if ti = T_double then read_attr T_double attr_idx fr
      else if ti = T_int64_t then read_attr T_int64_t attr_idx fr
      else if ti = T_float16 then read_attr T_float16 attr_idx fr
      else if ti = T_DataType then read_attr T_DataType attr_idx fr
      else if ti = T_Scalar then read_attr T_Scalar attr_idx fr
      else if ti = T_vector_int64_t then read_attr T_vector_int64_t attr_idx fr
      else if ti = T_ScalarArray then read_attr T_ScalarArray attr_idx fr
      else if ti = T_vector_int then read_attr T_vector_int attr_idx fr
      else Thrown Unimplemented fr)"

text \<open>
  Outputs mapping (lines 190 to 225): every output handle is a new \<^verbatim>\<open>Tensor\<close> on a
  new shared copy of the slot, and the shared pointer is kept beside the handle.
\<close>

definition wrap_outputs ::
  "('t, 'v) KernelContext \<Rightarrow> nat list \<Rightarrow> 't heap \<Rightarrow> Tensor list \<times> addr list \<times> 't heap" where
  "wrap_outputs c ctx_tensor_vec m =
     fold (\<lambda>ctx_tensor (custom_vec_out, custom_vec_out_ptr, h).
             case make_shared (outputs c ! ctx_tensor) h of
               (p, h') \<Rightarrow> (custom_vec_out @ [Tensor p], custom_vec_out_ptr @ [p], h'))
          ctx_tensor_vec ([], [], m)"

definition outputs_step :: "('t, 'v) OpKernelInfo \<Rightarrow> nat \<Rightarrow> ('t, 'v) frame \<Rightarrow> ('t, 'v) frame outcome" where
  "outputs_step op_kernel_info out_idx fr =
     (case OutputRangeAt (ctx fr) out_idx of
        None \<Rightarrow> Thrown AccessFault fr
      | Some rng \<Rightarrow>
          if \<not> is_vector (output_defs op_kernel_info ! out_idx) then
            (case MutableOutputAt (ctx fr) (fst rng) of
               None \<Rightarrow> Thrown AccessFault fr
             | Some ctx_tensor \<Rightarrow>
                 (case make_shared (outputs (ctx fr) ! ctx_tensor) (mem fr) of
                    (p, h) \<Rightarrow>
                      Done (fr\<lparr>mem := h, custom_outs := custom_outs fr @ [Tensor p],
                               custom_outs_ptr := custom_outs_ptr fr @ [p]\<rparr>)))
          else
            (case MutableOutputBetween (ctx fr) (fst rng) (snd rng) of
               None \<Rightarrow> Thrown AccessFault fr
             | Some ctx_tensor_vec \<Rightarrow>
                 (case wrap_outputs (ctx fr) ctx_tensor_vec (mem fr) of
                    (custom_vec_out, custom_vec_out_ptr, h) \<Rightarrow>
                      Done (fr\<lparr>mem := h,
                               custom_vec_outs := custom_vec_outs fr @ [custom_vec_out],
                               custom_vec_outs_ptr :=
                                 custom_vec_outs_ptr fr @ [custom_vec_out_ptr]\<rparr>))))"

text \<open>The three marshalling loops, one after the other (lines 106 to 225).\<close>

definition marshal :: "('t, 'v) OpKernelInfo \<Rightarrow> ('t, 'v) frame \<Rightarrow> ('t, 'v) frame outcome" where
  "marshal op_kernel_info fr =
     and_then
       (and_then
          (for_each (inputs_step op_kernel_info) [0..<length (input_defs op_kernel_info)] fr)
          (for_each (attrs_step op_kernel_info) [0..<length (attribute_defs op_kernel_info)]))
       (for_each (outputs_step op_kernel_info) [0..<length (output_defs op_kernel_info)])"

text \<open>The call of the user function (lines 256 to 259).\<close>

definition call_user_kernel_fn ::
  "DeviceContext \<Rightarrow> ('t, 'v) OpKernelInfo \<Rightarrow> ('t, 'v) frame \<Rightarrow> ('t, 'v) frame" where
  "call_user_kernel_fn dev_ctx op_kernel_info fr =
     (case kernel_fn op_kernel_info dev_ctx (custom_ins fr) (custom_vec_ins fr)
             (custom_attrs fr) (custom_outs fr, custom_vec_outs fr, mem fr) of
        (outs, vec_outs, m) \<Rightarrow> fr\<lparr>mem := m, custom_outs := outs, custom_vec_outs := vec_outs\<rparr>)"

definition call_event :: "DeviceContext \<Rightarrow> ('t, 'v) frame \<Rightarrow> 'v event" where
  "call_event dev_ctx fr =
     CALL_user_kernel_fn dev_ctx (custom_ins fr) (custom_vec_ins fr) (custom_attrs fr)
       (custom_outs fr) (custom_vec_outs fr)"

text \<open>
  Mapping the outputs back (lines 264 to 285), from the last output to the first. The
  kept shared pointers are taken with \<^verbatim>\<open>back()\<close> and \<^verbatim>\<open>pop_back()\<close>; \<^verbatim>\<open>back()\<close> of an
  empty vector is undefined in C++ and \<open>Thrown AccessFault\<close> here.
\<close>

definition copy_back_elem ::
  "'t heap \<Rightarrow> nat list \<Rightarrow> nat \<Rightarrow> ('t, 'v) KernelContext \<times> addr list
     \<Rightarrow> (('t, 'v) KernelContext \<times> addr list) outcome" where
  "copy_back_elem m ctx_tensor_vec idx s =
     (case s of (c, custom_vec_ptr_out) \<Rightarrow>
        if custom_vec_ptr_out = [] then Thrown AccessFault s
        else Done (assign_output c (ctx_tensor_vec ! idx) (cells m (last custom_vec_ptr_out)),
                   butlast custom_vec_ptr_out))"

definition map_back_step :: "('t, 'v) OpKernelInfo \<Rightarrow> nat \<Rightarrow> ('t, 'v) frame \<Rightarrow> ('t, 'v) frame outcome" where
  "map_back_step op_kernel_info out_idx fr =
     (case OutputRangeAt (ctx fr) out_idx of
        None \<Rightarrow> Thrown AccessFault fr
      | Some rng \<Rightarrow>
          if \<not> is_vector (output_defs op_kernel_info ! out_idx) then
            (case MutableOutputAt (ctx fr) (fst rng) of
               None \<Rightarrow> Thrown AccessFault fr
             | Some ctx_tensor \<Rightarrow>
                 if custom_outs_ptr fr = [] then Thrown AccessFault fr
                 else Done (fr\<lparr>ctx := assign_output (ctx fr) ctx_tensor
                                         (cells (mem fr) (last (custom_outs_ptr fr))),
                               custom_outs_ptr := butlast (custom_outs_ptr fr)\<rparr>))
          else
            (case MutableOutputBetween (ctx fr) (fst rng) (snd rng) of
               None \<Rightarrow> Thrown AccessFault fr
             | Some ctx_tensor_vec \<Rightarrow>
                 if custom_vec_outs_ptr fr = [] then Thrown AccessFault fr
                 else
                   (case for_each (copy_back_elem (mem fr) ctx_tensor_vec)
                           (rev [0..<length ctx_tensor_vec])
                           (ctx fr, last (custom_vec_outs_ptr fr)) of
                      Thrown e (c, rest) \<Rightarrow> Thrown e (fr\<lparr>ctx := c\<rparr>)
                    | Done (c, rest) \<Rightarrow>
                        Done (fr\<lparr>ctx := c,
                                 custom_vec_outs_ptr := butlast (custom_vec_outs_ptr fr)\<rparr>))))"

definition map_back :: "('t, 'v) OpKernelInfo \<Rightarrow> ('t, 'v) frame \<Rightarrow> ('t, 'v) frame outcome" where
  "map_back op_kernel_info fr =
     for_each (map_back_step op_kernel_info) (rev [0..<length (output_defs op_kernel_info)]) fr"

text \<open>
  The device type of a backend that is not the CPU (lines 241 to 243): the backend's
  offset from \<^verbatim>\<open>ALL_BACKEND\<close>, computed in \<^verbatim>\<open>size_t\<close>, looked up in the global table.
\<close>

definition device_type_of :: "Config \<Rightarrow> Backend \<Rightarrow> string" where
  "device_type_of cfg b =
     GetGlobalDeviceType cfg (of_nat b - of_nat (Backend_ALL_BACKEND cfg))"

text \<open>
  \<^verbatim>\<open>RunKernelFunc\<close> (lines 66 to 296). The result is the context as the call leaves it
  and the trace of the call. The last loops of the source delete the output handles and
  change nothing the model keeps.
\<close>

definition RunKernelFunc ::
  "Config \<Rightarrow> 't heap \<Rightarrow> ('t, 'v) KernelContext \<Rightarrow> ('t, 'v) OpKernelInfo
     \<Rightarrow> (('t, 'v) KernelContext \<times> 'v event list) outcome" where
  "RunKernelFunc cfg m c op_kernel_info =
     (let input_size = InputsSize c;
          output_size = OutputsSize c;
          attr_size = AttrsSize c
      in
      if \<not> length (input_defs op_kernel_info) \<le> input_size then
        Thrown InvalidArgument (c, [])
      else if \<not> length (output_defs op_kernel_info) \<le> output_size then
        Thrown InvalidArgument (c, [])
      else if attr_size \<noteq> length (attribute_defs op_kernel_info) then
        Thrown InvalidArgument (c, [])
      else
        (case marshal op_kernel_info (enter c m) of
           Thrown e fr \<Rightarrow> Thrown e (ctx fr, [])
         | Done fr \<Rightarrow>
             if kernel_backend op_kernel_info = Backend_CPU cfg then
               (case map_back op_kernel_info
                       (call_user_kernel_fn default_DeviceContext op_kernel_info fr) of
                  Thrown e fr' \<Rightarrow> Thrown e (ctx fr', [call_event default_DeviceContext fr])
                | Done fr' \<Rightarrow> Done (ctx fr', [call_event default_DeviceContext fr]))
             else if PADDLE_WITH_CUSTOM_DEVICE cfg
                     \<and> device_type_of cfg (kernel_backend op_kernel_info) \<noteq> [] then
               (let dev_ctx = set_stream default_DeviceContext (device_stream (ctx fr))
                in Done (ctx fr, []))
             else
               Done (ctx fr, [LOG ERROR ''[CUSTOM KERNEL] Unsupported kernel backend''])))"

subsection \<open>Registration\<close>

text \<open>
  Modelled from the spec: \<^verbatim>\<open>phi::Kernel\<close> and the table \<^verbatim>\<open>KernelFactory::kernels()\<close>
  (paddle/phi/core/kernel_factory.h is not among the sources). The dispatch table maps an
  op name to its family of kernels, and a family maps a kernel key to a kernel. The
  lambda that \<^verbatim>\<open>RegisterKernelWithMetaInfo\<close> builds captures the \<^verbatim>\<open>OpKernelInfo\<close> by
  value and calls \<^verbatim>\<open>RunKernelFunc\<close>; it is the constructor \<open>CustomKernelFn\<close>.
  \<^verbatim>\<open>HasCompatiblePtenKernel\<close> is a parameter of the registration functions.
\<close>

datatype ('t, 'v) KernelFn = NativeKernelFn nat | CustomKernelFn "('t, 'v) OpKernelInfo"

record ('t, 'v) Kernel =
  fn :: "('t, 'v) KernelFn"
  variadic_fn :: addr
  args_def :: KernelArgsDef

type_synonym ('t, 'v) KernelTable = "string \<rightharpoonup> (KernelKey \<rightharpoonup> ('t, 'v) Kernel)"

text \<open>\<^verbatim>\<open>kernels()[op_type]\<close>: \<^verbatim>\<open>operator[]\<close> adds an empty family for a new name.\<close>

definition subscript :: "('t, 'v) KernelTable \<Rightarrow> string \<Rightarrow> ('t, 'v) KernelTable" where
  "subscript ks op_type =
     (case ks op_type of None \<Rightarrow> ks(op_type \<mapsto> Map.empty) | Some f \<Rightarrow> ks)"

definition family :: "('t, 'v) KernelTable \<Rightarrow> string \<Rightarrow> (KernelKey \<rightharpoonup> ('t, 'v) Kernel)" where
  "family ks op_type = (case ks op_type of None \<Rightarrow> Map.empty | Some f \<Rightarrow> f)"

definition custom_kernel :: "('t, 'v) OpKernelInfo \<Rightarrow> ('t, 'v) Kernel" where
  "custom_kernel kernel_info =
     \<lparr>fn = CustomKernelFn kernel_info,
      variadic_fn = variadic_kernel_fn kernel_info,
      args_def = ParseArgs kernel_info empty_KernelArgsDef\<rparr>"

text \<open>The call of a registered custom kernel: the lambda of lines 326 to 329.\<close>

fun call_KernelFn ::
  "Config \<Rightarrow> 't heap \<Rightarrow> ('t, 'v) KernelFn \<Rightarrow> ('t, 'v) KernelContext
     \<Rightarrow> (('t, 'v) KernelContext \<times> 'v event list) outcome option" where
  "call_KernelFn cfg m (CustomKernelFn kernel_info) c = Some (RunKernelFunc cfg m c kernel_info)"
| "call_KernelFn cfg m (NativeKernelFn n) c = None"

text \<open>The body of the loop of \<^verbatim>\<open>RegisterKernelWithMetaInfo\<close> (lines 301 to 340).\<close>

definition register_kernel ::
  "(('t, 'v) KernelTable \<Rightarrow> string \<Rightarrow> bool) \<Rightarrow> ('t, 'v) OpKernelInfo
     \<Rightarrow> ('t, 'v) KernelTable \<Rightarrow> ('t, 'v) KernelTable outcome" where
  "register_kernel HasCompatiblePtenKernel kernel_info ks =
     (let op_type = op_name kernel_info;
          kernel_key = GetKernelKey kernel_info
      in
      if HasCompatiblePtenKernel ks op_type \<noteq> True then Thrown InvalidArgument ks
      else
        (let ks1 = subscript ks op_type in
         if family ks1 op_type kernel_key \<noteq> None then Thrown InvalidArgument ks1
         else Done (ks1(op_type \<mapsto> (family ks1 op_type)(kernel_key \<mapsto> custom_kernel kernel_info)))))"

definition RegisterKernelWithMetaInfo ::
  "(('t, 'v) KernelTable \<Rightarrow> string \<Rightarrow> bool) \<Rightarrow> ('t, 'v) OpKernelInfo list
     \<Rightarrow> ('t, 'v) KernelTable \<Rightarrow> ('t, 'v) KernelTable outcome" where
  "RegisterKernelWithMetaInfo HasCompatiblePtenKernel op_kernel_infos ks =
     for_each (register_kernel HasCompatiblePtenKernel) op_kernel_infos ks"

text \<open>
  \<^verbatim>\<open>OpKernelInfoMap::GetMap()\<close> is the list of its pairs in the order the loop of
  \<^verbatim>\<open>RegisterKernelWithMetaInfoMap\<close> (lines 351 to 354) visits them.
\<close>

type_synonym ('t, 'v) OpKernelInfoMap = "(string \<times> ('t, 'v) OpKernelInfo list) list"

definition RegisterKernelWithMetaInfoMap ::
  "(('t, 'v) KernelTable \<Rightarrow> string \<Rightarrow> bool) \<Rightarrow> ('t, 'v) OpKernelInfoMap
     \<Rightarrow> ('t, 'v) KernelTable \<Rightarrow> ('t, 'v) KernelTable outcome" where
  "RegisterKernelWithMetaInfoMap HasCompatiblePtenKernel op_kernel_info_map ks =
     for_each (\<lambda>pair. RegisterKernelWithMetaInfo HasCompatiblePtenKernel (snd pair))
       op_kernel_info_map ks"

subsection \<open>LoadCustomKernelLib\<close>

text \<open>
  A loaded library is its symbol table: \<^verbatim>\<open>dlsym\<close> of a name is \<open>None\<close> for the null
  pointer, or the map that calling the symbol returns. The state is the dispatch table
  and the log.
\<close>

type_synonym ('t, 'v) dso = "string \<rightharpoonup> ('t, 'v) OpKernelInfoMap"

definition LoadCustomKernelLib ::
  "Config \<Rightarrow> (('t, 'v) KernelTable \<Rightarrow> string \<Rightarrow> bool) \<Rightarrow> string \<Rightarrow> ('t, 'v) dso
     \<Rightarrow> ('t, 'v) KernelTable \<times> (severity \<times> string) list
     \<Rightarrow> (('t, 'v) KernelTable \<times> (severity \<times> string) list) outcome" where
  "LoadCustomKernelLib cfg HasCompatiblePtenKernel dso_lib_path dso_handle s =
     (case s of (ks, lg) \<Rightarrow>
        if LINUX cfg then
          (case dso_handle ''PD_GetOpKernelInfoMap'' of
             None \<Rightarrow>
               Done (ks, lg @ [(WARNING, ''Skipped lib ['' @ dso_lib_path @
                                  '']: fail to find PD_GetOpKernelInfoMap symbol in this lib.'')])
           | Some op_kernel_info_map \<Rightarrow>
               (case RegisterKernelWithMetaInfoMap HasCompatiblePtenKernel op_kernel_info_map ks of
                  Thrown e ks' \<Rightarrow> Thrown e (ks', lg)
                | Done ks' \<Rightarrow>
                    Done (ks', lg @ [(INFO, ''Successed in loading custom kernels in lib: '' @
                                         dso_lib_path)])))
        else Done s)"

section \<open>Notions the properties are stated with\<close>

fun state_of :: "'s outcome \<Rightarrow> 's" where
  "state_of (Done s) = s"
| "state_of (Thrown e s) = s"

fun caught :: "'s outcome \<Rightarrow> error option" where
  "caught (Done s) = None"
| "caught (Thrown e s) = Some e"

fun is_call :: "'v event \<Rightarrow> bool" where
  "is_call (CALL_user_kernel_fn d i vi a out vo) = True"
| "is_call (LOG sv msg) = False"

definition invoked :: "'v event list \<Rightarrow> bool" where
  "invoked tr = list_ex is_call tr"

text \<open>The three size invariants that lines 81 to 97 enforce.\<close>

definition size_invariants :: "('t, 'v) KernelContext \<Rightarrow> ('t, 'v) OpKernelInfo \<Rightarrow> bool" where
  "size_invariants c info =
     (length (input_defs info) \<le> InputsSize c
      \<and> length (output_defs info) \<le> OutputsSize c
      \<and> AttrsSize c = length (attribute_defs info))"

text \<open>The eleven attribute types of the chain of lines 137 to 181.\<close>

definition supported_attr_type :: "std_type_index \<Rightarrow> bool" where
  "supported_attr_type ti =
     List.member [T_bool, T_int, T_float, T_double, T_int64_t, T_float16, T_DataType,
                  T_Scalar, T_vector_int64_t, T_ScalarArray, T_vector_int] ti"

text \<open>Two contexts that differ at most in the contents of their input slots.\<close>

definition same_but_inputs :: "('t, 'v) KernelContext \<Rightarrow> ('t, 'v) KernelContext \<Rightarrow> bool" where
  "same_but_inputs c c' =
     (outputs c' = outputs c \<and> attrs c' = attrs c \<and> input_range c' = input_range c
      \<and> output_range c' = output_range c \<and> device_stream c' = device_stream c
      \<and> length (inputs c') = length (inputs c))"

text \<open>
  The place of output \<open>i\<close> among the single outputs and among the list outputs: the
  number of single (list) output specs before it. The handles and kept pointers of output
  \<open>i\<close> are at that place of \<open>custom_outs\<close> (\<open>custom_vec_outs\<close>) and of
  \<open>custom_outs_ptr\<close> (\<open>custom_vec_outs_ptr\<close>).
\<close>

definition scalar_pos :: "TensorArgDef list \<Rightarrow> nat \<Rightarrow> nat" where
  "scalar_pos defs i = length (filter (\<lambda>d. \<not> is_vector d) (take i defs))"

definition vector_pos :: "TensorArgDef list \<Rightarrow> nat \<Rightarrow> nat" where
  "vector_pos defs i = length (filter is_vector (take i defs))"

text \<open>The slots of output \<open>i\<close>: the first slot of its range, or the whole range.\<close>

definition out_slots :: "('t, 'v) OpKernelInfo \<Rightarrow> ('t, 'v) KernelContext \<Rightarrow> nat \<Rightarrow> nat list" where
  "out_slots info c i =
     (if is_vector (output_defs info ! i)
      then [fst (output_range c ! i)..<snd (output_range c ! i)]
      else [fst (output_range c ! i)])"

definition slot_values :: "('t, 'v) OpKernelInfo \<Rightarrow> ('t, 'v) KernelContext \<Rightarrow> nat \<Rightarrow> 't list" where
  "slot_values info c i = map (\<lambda>s. outputs c ! s) (out_slots info c i)"

text \<open>No two outputs share a slot.\<close>

definition outputs_independent :: "('t, 'v) OpKernelInfo \<Rightarrow> ('t, 'v) KernelContext \<Rightarrow> bool" where
  "outputs_independent info c =
     list_all (\<lambda>i. list_all (\<lambda>j. i = j \<or> set (out_slots info c i) \<inter> set (out_slots info c j) = {})
                      [0..<length (output_defs info)])
              [0..<length (output_defs info)]"

text \<open>
  The frame when the user function has returned (for a call that gets there), the values
  its output handles of output \<open>i\<close> then hold, and what it means that the user function
  left the handle (the handles, for a list) of output \<open>i\<close> bound to the shared tensor it
  was given.
\<close>

definition plugin_result ::
  "('t, 'v) OpKernelInfo \<Rightarrow> 't heap \<Rightarrow> ('t, 'v) KernelContext \<Rightarrow> ('t, 'v) frame" where
  "plugin_result info m c =
     call_user_kernel_fn default_DeviceContext info (state_of (marshal info (enter c m)))"

definition written :: "('t, 'v) OpKernelInfo \<Rightarrow> ('t, 'v) frame \<Rightarrow> nat \<Rightarrow> 't list" where
  "written info fr i =
     (if is_vector (output_defs info ! i)
      then map (\<lambda>h. cells (mem fr) (impl h))
             (custom_vec_outs fr ! vector_pos (output_defs info) i)
      else [cells (mem fr) (impl (custom_outs fr ! scalar_pos (output_defs info) i))])"

definition handle_kept ::
  "('t, 'v) OpKernelInfo \<Rightarrow> 't heap \<Rightarrow> ('t, 'v) KernelContext \<Rightarrow> nat \<Rightarrow> bool" where
  "handle_kept info m c i =
     (if is_vector (output_defs info ! i)
      then custom_vec_outs (plugin_result info m c) ! vector_pos (output_defs info) i
             = custom_vec_outs (state_of (marshal info (enter c m)))
                 ! vector_pos (output_defs info) i
      else custom_outs (plugin_result info m c) ! scalar_pos (output_defs info) i
             = custom_outs (state_of (marshal info (enter c m)))
                 ! scalar_pos (output_defs info) i)"

text \<open>
  No output declared before output \<open>i\<close> shares a slot with it. The outputs are written
  back from the last to the first, so only an output declared earlier can overwrite the
  slots of output \<open>i\<close>.
\<close>

definition first_on_its_slots ::
  "('t, 'v) OpKernelInfo \<Rightarrow> ('t, 'v) KernelContext \<Rightarrow> nat \<Rightarrow> bool" where
  "first_on_its_slots info c i =
     list_all (\<lambda>j. set (out_slots info c j) \<inter> set (out_slots info c i) = {}) [0..<i]"

text \<open>
  A write-back in forward order, to compare \<^verbatim>\<open>RunKernelFunc\<close>'s with. It is not code
  of the repository: it follows the words of the spec (design notes), where the kept
  pointers are indexed by the position of the output instead of being popped and the
  outputs are walked from the first to the last.
\<close>

definition map_back_forward_step ::
  "('t, 'v) OpKernelInfo \<Rightarrow> nat \<Rightarrow> ('t, 'v) frame \<Rightarrow> ('t, 'v) frame outcome" where
  "map_back_forward_step op_kernel_info out_idx fr =
     (case OutputRangeAt (ctx fr) out_idx of
        None \<Rightarrow> Thrown AccessFault fr
      | Some rng \<Rightarrow>
          if \<not> is_vector (output_defs op_kernel_info ! out_idx) then
            (case MutableOutputAt (ctx fr) (fst rng) of
               None \<Rightarrow> Thrown AccessFault fr
             | Some ctx_tensor \<Rightarrow>
                 if scalar_pos (output_defs op_kernel_info) out_idx < length (custom_outs_ptr fr)
                 then Done (fr\<lparr>ctx := assign_output (ctx fr) ctx_tensor
                            (cells (mem fr)
                               (custom_outs_ptr fr ! scalar_pos (output_defs op_kernel_info) out_idx))\<rparr>)
                 else Thrown AccessFault fr)
          else
            (case MutableOutputBetween (ctx fr) (fst rng) (snd rng) of
               None \<Rightarrow> Thrown AccessFault fr
             | Some ctx_tensor_vec \<Rightarrow>
                 if vector_pos (output_defs op_kernel_info) out_idx < length (custom_vec_outs_ptr fr)
                    \<and> length ctx_tensor_vec
                        \<le> length (custom_vec_outs_ptr fr ! vector_pos (output_defs op_kernel_info) out_idx)
                 then Done (fr\<lparr>ctx :=
                        fold (\<lambda>idx c. assign_output c (ctx_tensor_vec ! idx)
                                (cells (mem fr)
                                   (custom_vec_outs_ptr fr
                                      ! vector_pos (output_defs op_kernel_info) out_idx ! idx)))
                             [0..<length ctx_tensor_vec] (ctx fr)\<rparr>)
                 else Thrown AccessFault fr))"

definition map_back_forward :: "('t, 'v) OpKernelInfo \<Rightarrow> ('t, 'v) frame \<Rightarrow> ('t, 'v) frame outcome" where
  "map_back_forward op_kernel_info fr =
     for_each (map_back_forward_step op_kernel_info) [0..<length (output_defs op_kernel_info)] fr"

text \<open>
  For the proof of the write-back: the kept pointers of output \<open>i\<close>; the stacks of kept
  pointers fit the first \<open>k\<close> outputs; the output slots \<open>new\<close> are \<open>old\<close> with the
  slots of the first \<open>k\<close> outputs overwritten from the kept pointers (for every output,
  and in \<open>written_back_rev\<close> for every output that no earlier output overlaps); and the
  first \<open>k\<close> outputs share no slot.
\<close>

definition retained :: "('t, 'v) OpKernelInfo \<Rightarrow> ('t, 'v) frame \<Rightarrow> nat \<Rightarrow> addr list" where
  "retained info fr i =
     (if is_vector (output_defs info ! i)
      then custom_vec_outs_ptr fr ! vector_pos (output_defs info) i
      else [custom_outs_ptr fr ! scalar_pos (output_defs info) i])"

definition stacks_fit :: "('t, 'v) OpKernelInfo \<Rightarrow> ('t, 'v) frame \<Rightarrow> nat \<Rightarrow> bool" where
  "stacks_fit info fr k =
     (k \<le> length (output_defs info)
      \<and> length (custom_outs_ptr fr) = scalar_pos (output_defs info) k
      \<and> length (custom_vec_outs_ptr fr) = vector_pos (output_defs info) k
      \<and> (\<forall>i<k. i < length (output_range (ctx fr))
              \<and> (\<forall>s\<in>set (out_slots info (ctx fr) i). s < length (outputs (ctx fr)))
              \<and> (is_vector (output_defs info ! i) \<longrightarrow>
                   length (custom_vec_outs_ptr fr ! vector_pos (output_defs info) i)
                     = length (out_slots info (ctx fr) i))))"

definition written_back ::
  "('t, 'v) OpKernelInfo \<Rightarrow> ('t, 'v) frame \<Rightarrow> nat \<Rightarrow> 't list \<Rightarrow> 't list \<Rightarrow> bool" where
  "written_back info fr k old new =
     (length new = length old
      \<and> (\<forall>i<k. map (\<lambda>s. new ! s) (out_slots info (ctx fr) i)
                  = map (cells (mem fr)) (retained info fr i))
      \<and> (\<forall>s. (\<forall>i<k. s \<notin> set (out_slots info (ctx fr) i)) \<longrightarrow> new ! s = old ! s))"

definition written_back_rev ::
  "('t, 'v) OpKernelInfo \<Rightarrow> ('t, 'v) frame \<Rightarrow> nat \<Rightarrow> 't list \<Rightarrow> 't list \<Rightarrow> bool" where
  "written_back_rev info fr k old new =
     (length new = length old
      \<and> (\<forall>i<k. (\<forall>j<i. set (out_slots info (ctx fr) j) \<inter> set (out_slots info (ctx fr) i) = {})
               \<longrightarrow> map (\<lambda>s. new ! s) (out_slots info (ctx fr) i)
                     = map (cells (mem fr)) (retained info fr i))
      \<and> (\<forall>s. (\<forall>i<k. s \<notin> set (out_slots info (ctx fr) i)) \<longrightarrow> new ! s = old ! s))"

definition independent_upto :: "('t, 'v) OpKernelInfo \<Rightarrow> ('t, 'v) KernelContext \<Rightarrow> nat \<Rightarrow> bool" where
  "independent_upto info c k =
     (\<forall>i<k. \<forall>j<k. i \<noteq> j \<longrightarrow> set (out_slots info c i) \<inter> set (out_slots info c j) = {})"

section \<open>Example inputs\<close>

definition cpu_build :: Config where
  "cpu_build =
     \<lparr>PADDLE_WITH_CUSTOM_DEVICE = False, LINUX = True, Backend_CPU = 1,
      Backend_ALL_BACKEND = 0, GetGlobalDeviceType = (\<lambda>i. [])\<rparr>"

definition custom_device_build :: Config where
  "custom_device_build =
     \<lparr>PADDLE_WITH_CUSTOM_DEVICE = True, LINUX = True, Backend_CPU = 1,
      Backend_ALL_BACKEND = 0,
      GetGlobalDeviceType = (\<lambda>i. if i = 7 then ''npu'' else [])\<rparr>"

definition blank_heap :: "nat heap" where
  "blank_heap = \<lparr>cells = (\<lambda>a. 0), next_addr = 0\<rparr>"

definition single_def :: TensorArgDef where
  "single_def = \<lparr>backend = 1, layout = 0, dtype = 0, is_vector = False\<rparr>"

definition list_def :: TensorArgDef where
  "list_def = \<lparr>backend = 1, layout = 0, dtype = 0, is_vector = True\<rparr>"

text \<open>
  The end-to-end scenario of the spec: two single inputs, a list input of three tensors,
  one \<^verbatim>\<open>int\<close> attribute, a single output and a list output of two tensors. A tensor is
  a number; the kernel doubles the inputs at the matching places.
\<close>

definition doubling_kernel :: "(nat, nat) CustomKernelFunc" where
  "doubling_kernel dev ins vec_ins ats s =
     (case s of (outs, vec_outs, h) \<Rightarrow>
        (outs, vec_outs,
         h\<lparr>cells := (cells h)
              (impl (outs ! 0) := 2 * cells h (impl (ins ! 0)),
               impl (vec_outs ! 0 ! 0) := 2 * cells h (impl (vec_ins ! 0 ! 0)),
               impl (vec_outs ! 0 ! 1) := 2 * cells h (impl (vec_ins ! 0 ! 1)))\<rparr>))"

definition demo_info :: "(nat, nat) OpKernelInfo" where
  "demo_info =
     \<lparr>op_name = ''demo'', kernel_backend = 1, kernel_layout = 0, kernel_dtype = 0,
      input_defs = [single_def, single_def, list_def],
      output_defs = [single_def, list_def],
      attribute_defs = [\<lparr>type_index = T_int\<rparr>],
      kernel_fn = doubling_kernel, variadic_kernel_fn = 0\<rparr>"

definition demo_ctx :: "(nat, nat) KernelContext" where
  "demo_ctx =
     \<lparr>inputs = [Some 1, Some 2, Some 3, Some 4, Some 5], outputs = [0, 0, 0],
      attrs = [Any T_int 9], input_range = [(0, 1), (1, 2), (2, 5)],
      output_range = [(0, 1), (1, 3)], device_stream = 0\<rparr>"

definition other_platform_build :: Config where
  "other_platform_build =
     \<lparr>PADDLE_WITH_CUSTOM_DEVICE = False, LINUX = False, Backend_CPU = 1,
      Backend_ALL_BACKEND = 0, GetGlobalDeviceType = (\<lambda>i. [])\<rparr>"

text \<open>
  A dispatch table with one family, \<open>''demo''\<close>, holding one native kernel, and the
  reading of \<^verbatim>\<open>HasCompatiblePtenKernel\<close> under which an op name is ready when the table
  has a family of that name.
\<close>

definition has_family :: "(nat, nat) KernelTable \<Rightarrow> string \<Rightarrow> bool" where
  "has_family ks op_type = (ks op_type \<noteq> None)"

definition demo_table :: "(nat, nat) KernelTable" where
  "demo_table =
     [''demo'' \<mapsto>
        [(0, 0, 0) \<mapsto> \<lparr>fn = NativeKernelFn 0, variadic_fn = 0,
                          args_def = empty_KernelArgsDef\<rparr>]]"

definition accelerator_info :: "(nat, nat) OpKernelInfo" where
  "accelerator_info = demo_info\<lparr>kernel_backend := 7\<rparr>"

text \<open>A signature with a second attribute of a type outside the chain, and a context for it.\<close>

definition string_attr_info :: "(nat, nat) OpKernelInfo" where
  "string_attr_info =
     demo_info\<lparr>attribute_defs :=
       [\<lparr>type_index = T_int\<rparr>, \<lparr>type_index = T_other ''std::string''\<rparr>]\<rparr>"

definition string_attr_ctx :: "(nat, nat) KernelContext" where
  "string_attr_ctx = demo_ctx\<lparr>attrs := [Any T_int 9, Any (T_other ''std::string'') 0]\<rparr>"

text \<open>
  A kernel with three single outputs that binds its first output handle to a new shared
  tensor holding 7 (\<^verbatim>\<open>set_impl\<close>) and writes 5 and 6 through the other two handles, and
  a context in which the second and the third output share slot 1.
\<close>

definition rebinding_kernel :: "(nat, nat) CustomKernelFunc" where
  "rebinding_kernel dev ins vec_ins ats s =
     (case s of (outs, vec_outs, h) \<Rightarrow>
        (case make_shared 7 h of
           (p, h') \<Rightarrow>
             (outs[0 := Tensor p], vec_outs,
              h'\<lparr>cells := (cells h')(impl (outs ! 1) := 5, impl (outs ! 2) := 6)\<rparr>)))"

definition rebinding_info :: "(nat, nat) OpKernelInfo" where
  "rebinding_info =
     \<lparr>op_name = ''rebind'', kernel_backend = 1, kernel_layout = 0, kernel_dtype = 0,
      input_defs = [], output_defs = [single_def, single_def, single_def],
      attribute_defs = [], kernel_fn = rebinding_kernel, variadic_kernel_fn = 0\<rparr>"

definition rebinding_ctx :: "(nat, nat) KernelContext" where
  "rebinding_ctx =
     \<lparr>inputs = [], outputs = [10, 20, 30], attrs = [], input_range = [],
      output_range = [(0, 1), (1, 2), (1, 2)], device_stream = 0\<rparr>"

text \<open>
  A kernel with a single output, a list output of two tensors, a second single output and
  a list output of three tensors, which writes a different marker through every handle.
\<close>

definition marker_kernel :: "(nat, nat) CustomKernelFunc" where
  "marker_kernel dev ins vec_ins ats s =
     (case s of (outs, vec_outs, h) \<Rightarrow>
        (outs, vec_outs,
         h\<lparr>cells := (cells h)
              (impl (outs ! 0) := 11,
               impl (vec_outs ! 0 ! 0) := 21, impl (vec_outs ! 0 ! 1) := 22,
               impl (outs ! 1) := 31,
               impl (vec_outs ! 1 ! 0) := 41, impl (vec_outs ! 1 ! 1) := 42,
               impl (vec_outs ! 1 ! 2) := 43)\<rparr>))"

definition marker_info :: "(nat, nat) OpKernelInfo" where
  "marker_info =
     \<lparr>op_name = ''marker'', kernel_backend = 1, kernel_layout = 0, kernel_dtype = 0,
      input_defs = [], output_defs = [single_def, list_def, single_def, list_def],
      attribute_defs = [], kernel_fn = marker_kernel, variadic_kernel_fn = 0\<rparr>"

definition marker_ctx :: "(nat, nat) KernelContext" where
  "marker_ctx =
     \<lparr>inputs = [], outputs = [0, 0, 0, 0, 0, 0, 0], attrs = [], input_range = [],
      output_range = [(0, 1), (1, 3), (3, 4), (4, 7)], device_stream = 0\<rparr>"

section \<open>Properties\<close>

subsection \<open>ParseArgs\<close>

lemma fold_AppendInput:
  "fold (\<lambda>d. AppendInput (backend d) (layout d) (dtype d) (tensor_type_index d)) ds a =
     a\<lparr>args_input_defs := args_input_defs a @
        map (\<lambda>d. \<lparr>arg_backend = backend d, arg_layout = layout d, arg_dtype = dtype d,
                   arg_type_index = tensor_type_index d\<rparr>) ds\<rparr>"
  by (induction ds arbitrary: a) (simp_all add: AppendInput_def)

lemma fold_AppendOutput:
  "fold (\<lambda>d. AppendOutput (backend d) (layout d) (dtype d) (tensor_type_index d)) ds a =
     a\<lparr>args_output_defs := args_output_defs a @
        map (\<lambda>d. \<lparr>arg_backend = backend d, arg_layout = layout d, arg_dtype = dtype d,
                   arg_type_index = tensor_type_index d\<rparr>) ds\<rparr>"
  by (induction ds arbitrary: a) (simp_all add: AppendOutput_def)

lemma fold_AppendAttribute:
  "fold (\<lambda>attr. AppendAttribute (type_index attr)) ds a =
     a\<lparr>args_attribute_defs := args_attribute_defs a @ map type_index ds\<rparr>"
  by (induction ds arbitrary: a) (simp_all add: AppendAttribute_def)

text \<open>
  C8. \<^verbatim>\<open>ParseArgs\<close> is a total function with no failing branch. It appends to the
  argument-definition record one entry per input spec, in order, tagged
  \<open>T_vector_DenseTensor\<close> (tensor list) when the spec is list-valued and \<open>T_DenseTensor\<close>
  (single tensor) otherwise, with the spec's backend, layout and dtype; the same for the
  output specs; and the type identifier of every attribute spec unchanged.
\<close>

theorem ParseArgs_total_and_ordered:
  "ParseArgs info a =
     \<lparr>args_input_defs = args_input_defs a @
        map (\<lambda>d. \<lparr>arg_backend = backend d, arg_layout = layout d, arg_dtype = dtype d,
                   arg_type_index = (if is_vector d then T_vector_DenseTensor else T_DenseTensor)\<rparr>)
            (input_defs info),
      args_output_defs = args_output_defs a @
        map (\<lambda>d. \<lparr>arg_backend = backend d, arg_layout = layout d, arg_dtype = dtype d,
                   arg_type_index = (if is_vector d then T_vector_DenseTensor else T_DenseTensor)\<rparr>)
            (output_defs info),
      args_attribute_defs = args_attribute_defs a @ map type_index (attribute_defs info)\<rparr>"
  unfolding ParseArgs_def Let_def fold_AppendInput fold_AppendOutput fold_AppendAttribute
  by (simp add: tensor_type_index_def)

theorem ParseArgs_total_and_ordered_witness:
  "ParseArgs demo_info empty_KernelArgsDef =
     \<lparr>args_input_defs =
        [\<lparr>arg_backend = 1, arg_layout = 0, arg_dtype = 0, arg_type_index = T_DenseTensor\<rparr>,
         \<lparr>arg_backend = 1, arg_layout = 0, arg_dtype = 0, arg_type_index = T_DenseTensor\<rparr>,
         \<lparr>arg_backend = 1, arg_layout = 0, arg_dtype = 0,
          arg_type_index = T_vector_DenseTensor\<rparr>],
      args_output_defs =
        [\<lparr>arg_backend = 1, arg_layout = 0, arg_dtype = 0, arg_type_index = T_DenseTensor\<rparr>,
         \<lparr>arg_backend = 1, arg_layout = 0, arg_dtype = 0,
          arg_type_index = T_vector_DenseTensor\<rparr>],
      args_attribute_defs = [T_int]\<rparr>"
  using ParseArgs_total_and_ordered [of demo_info empty_KernelArgsDef]
  by (simp add: demo_info_def empty_KernelArgsDef_def single_def_def list_def_def)

subsection \<open>RunKernelFunc: the size checks\<close>

text \<open>
  C3. When the context has fewer input slots than the signature has input specs, or fewer
  output slots than output specs, or a number of attributes other than the number of
  attribute specs, \<^verbatim>\<open>RunKernelFunc\<close> throws \<open>InvalidArgument\<close>; the context is as it
  was and the trace is empty, so the user function was not called.
\<close>

theorem RunKernelFunc_size_check:
  assumes "InputsSize c < length (input_defs info)
           \<or> OutputsSize c < length (output_defs info)
           \<or> AttrsSize c \<noteq> length (attribute_defs info)"
  shows "RunKernelFunc cfg m c info = Thrown InvalidArgument (c, [])
         \<and> \<not> invoked (snd (state_of (RunKernelFunc cfg m c info)))"
  using assms by (auto simp: RunKernelFunc_def Let_def invoked_def)

theorem RunKernelFunc_size_check_witness:
  "InputsSize (demo_ctx\<lparr>inputs := [Some 1, Some 2]\<rparr>) < length (input_defs demo_info)
   \<and> RunKernelFunc cpu_build blank_heap (demo_ctx\<lparr>inputs := [Some 1, Some 2]\<rparr>) demo_info
       = Thrown InvalidArgument (demo_ctx\<lparr>inputs := [Some 1, Some 2]\<rparr>, [])"
  using RunKernelFunc_size_check
          [of "demo_ctx\<lparr>inputs := [Some 1, Some 2]\<rparr>" demo_info cpu_build blank_heap]
  by (simp add: InputsSize_def demo_info_def)

subsection \<open>Loops\<close>

lemma for_each_append:
  "for_each body (xs @ ys) s =
     (case for_each body xs s of
        Done s' \<Rightarrow> for_each body ys s'
      | Thrown e s' \<Rightarrow> Thrown e s')"
  by (induction xs arbitrary: s) (auto split: outcome.splits)

lemma for_each_preserves:
  assumes "\<And>x s. P s \<Longrightarrow> P (state_of (body x s))"
  shows "P s \<Longrightarrow> P (state_of (for_each body xs s))"
proof (induction xs arbitrary: s)
  case Nil
  then show ?case by simp
next
  case (Cons x xs)
  from assms [OF Cons.prems, of x] show ?case
    by (cases "body x s") (use Cons.IH in auto)
qed

lemma for_each_stops:
  "for_each body xs s = Done s1 \<Longrightarrow> body x s1 = Thrown e s2 \<Longrightarrow>
   for_each body (xs @ x # ys) s = Thrown e s2"
  by (simp add: for_each_append)

lemma for_each_stops_at:
  assumes "i < length xs" and "for_each body (take i xs) s = Done s1"
      and "body (xs ! i) s1 = Thrown e s2"
  shows "for_each body xs s = Thrown e s2"
proof -
  have "for_each body (take i xs @ xs ! i # drop (Suc i) xs) s = Thrown e s2"
    using assms(2,3) by (rule for_each_stops)
  moreover have "take i xs @ xs ! i # drop (Suc i) xs = xs"
    using assms(1) by (simp add: Cons_nth_drop_Suc)
  ultimately show ?thesis by (simp only:)
qed

lemma nth_in_take: "j < i \<Longrightarrow> i < length xs \<Longrightarrow> xs ! j \<in> set (take i xs)"
  by (auto simp: in_set_conv_nth intro!: exI [of _ j])

subsection \<open>Registration\<close>

lemma family_subscript [simp]: "family (subscript ks op) op' = family ks op'"
  by (auto simp: family_def subscript_def split: option.splits)

lemma subscript_present: "family ks op key \<noteq> None \<Longrightarrow> subscript ks op = ks"
  by (auto simp: family_def subscript_def split: option.splits)

lemma register_kernel_eq:
  "register_kernel H info ks =
     (if \<not> H ks (op_name info) \<or> family ks (op_name info) (GetKernelKey info) \<noteq> None
      then Thrown InvalidArgument ks
      else Done ((subscript ks (op_name info))
                   (op_name info \<mapsto>
                      (family ks (op_name info))(GetKernelKey info \<mapsto> custom_kernel info))))"
  by (auto simp: register_kernel_def Let_def subscript_present)

lemma family_installed:
  "family ((subscript ks op)(op \<mapsto> (family ks op)(key \<mapsto> k))) op' key' =
     (if op' = op \<and> key' = key then Some k else family ks op' key')"
  by (auto simp: family_def subscript_def split: option.splits)

lemma register_kernel_keeps:
  "family ks op key = Some k \<Longrightarrow>
   family (state_of (register_kernel H info ks)) op key = Some k"
  by (auto simp: register_kernel_eq family_installed)

lemma register_kernel_Done_installed:
  "register_kernel H info ks = Done ks' \<Longrightarrow>
   family ks' (op_name info) (GetKernelKey info) = Some (custom_kernel info)"
  by (auto simp: register_kernel_eq family_installed split: if_splits)

lemma RegisterKernelWithMetaInfo_keeps:
  "family ks op key = Some k \<Longrightarrow>
   family (state_of (RegisterKernelWithMetaInfo H infos ks)) op key = Some k"
  unfolding RegisterKernelWithMetaInfo_def
  by (rule for_each_preserves [where P = "\<lambda>s. family s op key = Some k"])
     (simp_all add: register_kernel_keeps)

lemma RegisterKernelWithMetaInfo_Done_installed:
  "RegisterKernelWithMetaInfo H infos ks = Done ks' \<Longrightarrow> info \<in> set infos \<Longrightarrow>
   family ks' (op_name info) (GetKernelKey info) = Some (custom_kernel info)"
proof (induction infos arbitrary: ks)
  case Nil
  then show ?case by simp
next
  case (Cons a infos)
  from Cons.prems(1) obtain ks1 where
    a: "register_kernel H a ks = Done ks1" and
    rest: "RegisterKernelWithMetaInfo H infos ks1 = Done ks'"
    by (auto simp: RegisterKernelWithMetaInfo_def split: outcome.splits)
  show ?case
  proof (cases "info = a")
    case True
    have "family ks1 (op_name info) (GetKernelKey info) = Some (custom_kernel info)"
      using a True by (simp add: register_kernel_Done_installed)
    from RegisterKernelWithMetaInfo_keeps [OF this, of H infos] rest
    show ?thesis by simp
  next
    case False
    with Cons.prems(2) have "info \<in> set infos" by simp
    from Cons.IH [OF rest this] show ?thesis .
  qed
qed

lemma RegisterKernelWithMetaInfoMap_keeps:
  "family ks op key = Some k \<Longrightarrow>
   family (state_of (RegisterKernelWithMetaInfoMap H mp ks)) op key = Some k"
  unfolding RegisterKernelWithMetaInfoMap_def
  by (rule for_each_preserves [where P = "\<lambda>s. family s op key = Some k"])
     (simp_all add: RegisterKernelWithMetaInfo_keeps)

lemma RegisterKernelWithMetaInfoMap_Done_installed:
  "RegisterKernelWithMetaInfoMap H mp ks = Done ks' \<Longrightarrow> pair \<in> set mp \<Longrightarrow>
   info \<in> set (snd pair) \<Longrightarrow>
   family ks' (op_name info) (GetKernelKey info) = Some (custom_kernel info)"
proof (induction mp arbitrary: ks)
  case Nil
  then show ?case by simp
next
  case (Cons a mp)
  from Cons.prems(1) obtain ks1 where
    a: "RegisterKernelWithMetaInfo H (snd a) ks = Done ks1" and
    rest: "RegisterKernelWithMetaInfoMap H mp ks1 = Done ks'"
    by (auto simp: RegisterKernelWithMetaInfoMap_def split: outcome.splits)
  show ?case
  proof (cases "pair = a")
    case True
    have "family ks1 (op_name info) (GetKernelKey info) = Some (custom_kernel info)"
      using a True Cons.prems(3) by (simp add: RegisterKernelWithMetaInfo_Done_installed)
    from RegisterKernelWithMetaInfoMap_keeps [OF this, of H mp] rest
    show ?thesis by simp
  next
    case False
    with Cons.prems(2) have "pair \<in> set mp" by simp
    from Cons.IH [OF rest this Cons.prems(3)] show ?thesis .
  qed
qed

lemmas demo_registration_defs =
  has_family_def demo_table_def demo_info_def GetKernelKey_def family_def subscript_def

text \<open>
  C6. Registering one signature throws exactly when \<^verbatim>\<open>HasCompatiblePtenKernel\<close> rejects
  the op name or the family of that name already has a kernel under the same key. When it
  throws, the table is the table as it was, so a kernel registered before under that key
  is still there, unchanged. When it does not throw, the entry of (op name, kernel key) is
  the new kernel: its function is the lambda that captured this signature, so calling it
  on a context is calling \<^verbatim>\<open>RunKernelFunc\<close> on that context and this signature; its
  variadic function is the signature's; and its argument definitions are what
  \<^verbatim>\<open>ParseArgs\<close> makes of the signature from the empty record. Every other entry is as
  before.
\<close>

theorem RegisterKernelWithMetaInfo_single:
  "(caught (RegisterKernelWithMetaInfo H [info] ks) \<noteq> None) =
     (\<not> H ks (op_name info) \<or> family ks (op_name info) (GetKernelKey info) \<noteq> None)
   \<and> (\<not> H ks (op_name info) \<or> family ks (op_name info) (GetKernelKey info) \<noteq> None \<longrightarrow>
        RegisterKernelWithMetaInfo H [info] ks = Thrown InvalidArgument ks)
   \<and> (H ks (op_name info) \<and> family ks (op_name info) (GetKernelKey info) = None \<longrightarrow>
        caught (RegisterKernelWithMetaInfo H [info] ks) = None
        \<and> family (state_of (RegisterKernelWithMetaInfo H [info] ks)) (op_name info)
             (GetKernelKey info) = Some (custom_kernel info)
        \<and> family (state_of (RegisterKernelWithMetaInfo H [info] ks)) (op_name info)
             (GetKernelKey info)
            = Some \<lparr>fn = CustomKernelFn info, variadic_fn = variadic_kernel_fn info,
                    args_def = ParseArgs info empty_KernelArgsDef\<rparr>
        \<and> (\<exists>k. family (state_of (RegisterKernelWithMetaInfo H [info] ks)) (op_name info)
                   (GetKernelKey info) = Some k
                \<and> (\<forall>cfg m c. call_KernelFn cfg m (fn k) c = Some (RunKernelFunc cfg m c info))
                \<and> variadic_fn k = variadic_kernel_fn info
                \<and> args_def k = ParseArgs info empty_KernelArgsDef)
        \<and> (\<forall>op key. (op, key) \<noteq> (op_name info, GetKernelKey info) \<longrightarrow>
               family (state_of (RegisterKernelWithMetaInfo H [info] ks)) op key
                 = family ks op key))"
  by (auto simp: RegisterKernelWithMetaInfo_def register_kernel_eq family_installed
        custom_kernel_def)

theorem RegisterKernelWithMetaInfo_single_witness:
  "has_family demo_table (op_name demo_info)
   \<and> family demo_table (op_name demo_info) (GetKernelKey demo_info) = None
   \<and> caught (RegisterKernelWithMetaInfo has_family [demo_info] demo_table) = None
   \<and> family (state_of (RegisterKernelWithMetaInfo has_family [demo_info] demo_table))
        ''demo'' (1, 0, 0) = Some (custom_kernel demo_info)
   \<and> family (state_of (RegisterKernelWithMetaInfo has_family [demo_info] demo_table))
        ''demo'' (1, 0, 0)
       = Some \<lparr>fn = CustomKernelFn demo_info, variadic_fn = 0,
               args_def =
                 \<lparr>args_input_defs =
                    [\<lparr>arg_backend = 1, arg_layout = 0, arg_dtype = 0,
                      arg_type_index = T_DenseTensor\<rparr>,
                     \<lparr>arg_backend = 1, arg_layout = 0, arg_dtype = 0,
                      arg_type_index = T_DenseTensor\<rparr>,
                     \<lparr>arg_backend = 1, arg_layout = 0, arg_dtype = 0,
                      arg_type_index = T_vector_DenseTensor\<rparr>],
                  args_output_defs =
                    [\<lparr>arg_backend = 1, arg_layout = 0, arg_dtype = 0,
                      arg_type_index = T_DenseTensor\<rparr>,
                     \<lparr>arg_backend = 1, arg_layout = 0, arg_dtype = 0,
                      arg_type_index = T_vector_DenseTensor\<rparr>],
                  args_attribute_defs = [T_int]\<rparr>\<rparr>
   \<and> call_KernelFn cpu_build blank_heap (CustomKernelFn demo_info) demo_ctx
       = Some (RunKernelFunc cpu_build blank_heap demo_ctx demo_info)
   \<and> family (state_of (RegisterKernelWithMetaInfo has_family [demo_info] demo_table))
        ''demo'' (0, 0, 0) = family demo_table ''demo'' (0, 0, 0)"
  using RegisterKernelWithMetaInfo_single [of has_family demo_info demo_table]
  by (simp add: demo_registration_defs ParseArgs_def AppendInput_def AppendOutput_def
        AppendAttribute_def tensor_type_index_def empty_KernelArgsDef_def single_def_def
        list_def_def custom_kernel_def)

lemma demo_registered:
  "RegisterKernelWithMetaInfo has_family [demo_info] demo_table =
     Done (demo_table(''demo'' \<mapsto> (family demo_table ''demo'')((1, 0, 0) \<mapsto> custom_kernel demo_info)))"
  by (simp add: RegisterKernelWithMetaInfo_def register_kernel_eq demo_registration_defs)

lemma demo_registered_twice:
  "register_kernel has_family demo_info
     (demo_table(''demo'' \<mapsto> (family demo_table ''demo'')((1, 0, 0) \<mapsto> custom_kernel demo_info)))
   = Thrown InvalidArgument
       (demo_table(''demo'' \<mapsto> (family demo_table ''demo'')((1, 0, 0) \<mapsto> custom_kernel demo_info)))"
  by (simp add: register_kernel_eq demo_registration_defs)

text \<open>
  C10. Batch registration is not atomic. When the first \<open>i\<close> signatures of a list
  register and the check of signature \<open>i\<close> throws, \<^verbatim>\<open>RegisterKernelWithMetaInfo\<close> throws
  with a table in which the kernels of signatures \<open>0\<close> to \<open>i - 1\<close> are installed. When
  the first \<open>g\<close> groups of a map register and group \<open>g\<close> throws,
  \<^verbatim>\<open>RegisterKernelWithMetaInfoMap\<close> throws with a table in which every kernel of the
  earlier groups is installed.
\<close>

theorem batch_registration_not_atomic:
  "(i < length infos \<and> RegisterKernelWithMetaInfo H (take i infos) ks = Done ks1
      \<and> register_kernel H (infos ! i) ks1 = Thrown e ks2 \<longrightarrow>
      RegisterKernelWithMetaInfo H infos ks = Thrown e ks1
      \<and> (\<forall>j<i. family ks1 (op_name (infos ! j)) (GetKernelKey (infos ! j))
                  = Some (custom_kernel (infos ! j))))
   \<and> (g < length mp \<and> RegisterKernelWithMetaInfoMap H (take g mp) ks = Done ks1
      \<and> RegisterKernelWithMetaInfo H (snd (mp ! g)) ks1 = Thrown e ks2 \<longrightarrow>
      RegisterKernelWithMetaInfoMap H mp ks = Thrown e ks2
      \<and> (\<forall>j<g. \<forall>info\<in>set (snd (mp ! j)).
             family ks2 (op_name info) (GetKernelKey info) = Some (custom_kernel info)))"
proof (intro conjI impI)
  assume a: "i < length infos \<and> RegisterKernelWithMetaInfo H (take i infos) ks = Done ks1
      \<and> register_kernel H (infos ! i) ks1 = Thrown e ks2"
  then have i: "i < length infos"
    and pre: "for_each (register_kernel H) (take i infos) ks = Done ks1"
    and bad: "register_kernel H (infos ! i) ks1 = Thrown e ks2"
    by (simp_all add: RegisterKernelWithMetaInfo_def)
  from bad have "ks2 = ks1" by (auto simp: register_kernel_eq split: if_splits)
  with for_each_stops_at [OF i pre bad]
  show "RegisterKernelWithMetaInfo H infos ks = Thrown e ks1"
    by (simp add: RegisterKernelWithMetaInfo_def)
  show "\<forall>j<i. family ks1 (op_name (infos ! j)) (GetKernelKey (infos ! j))
                  = Some (custom_kernel (infos ! j))"
  proof (intro allI impI)
    fix j assume "j < i"
    then have "infos ! j \<in> set (take i infos)" using i by (rule nth_in_take)
    moreover from a have "RegisterKernelWithMetaInfo H (take i infos) ks = Done ks1" by simp
    ultimately show "family ks1 (op_name (infos ! j)) (GetKernelKey (infos ! j))
                  = Some (custom_kernel (infos ! j))"
      by (rule RegisterKernelWithMetaInfo_Done_installed [rotated])
  qed
next
  assume a: "g < length mp \<and> RegisterKernelWithMetaInfoMap H (take g mp) ks = Done ks1
      \<and> RegisterKernelWithMetaInfo H (snd (mp ! g)) ks1 = Thrown e ks2"
  then have g: "g < length mp"
    and pre: "for_each (\<lambda>pair. RegisterKernelWithMetaInfo H (snd pair)) (take g mp) ks = Done ks1"
    and bad: "(\<lambda>pair. RegisterKernelWithMetaInfo H (snd pair)) (mp ! g) ks1 = Thrown e ks2"
    by (simp_all add: RegisterKernelWithMetaInfoMap_def)
  from for_each_stops_at [OF g pre bad]
  show "RegisterKernelWithMetaInfoMap H mp ks = Thrown e ks2"
    by (simp add: RegisterKernelWithMetaInfoMap_def)
  show "\<forall>j<g. \<forall>info\<in>set (snd (mp ! j)).
             family ks2 (op_name info) (GetKernelKey info) = Some (custom_kernel info)"
  proof (intro allI impI ballI)
    fix j info assume j: "j < g" and info: "info \<in> set (snd (mp ! j))"
    from j g have "mp ! j \<in> set (take g mp)" by (rule nth_in_take)
    moreover from a have "RegisterKernelWithMetaInfoMap H (take g mp) ks = Done ks1" by simp
    ultimately have "family ks1 (op_name info) (GetKernelKey info) = Some (custom_kernel info)"
      using info by (intro RegisterKernelWithMetaInfoMap_Done_installed)
    from RegisterKernelWithMetaInfo_keeps [OF this, of H "snd (mp ! g)"] a
    show "family ks2 (op_name info) (GetKernelKey info) = Some (custom_kernel info)"
      by simp
  qed
qed

theorem batch_registration_not_atomic_witness:
  "RegisterKernelWithMetaInfo has_family [demo_info, demo_info] demo_table =
     Thrown InvalidArgument
       (demo_table(''demo'' \<mapsto> (family demo_table ''demo'')((1, 0, 0) \<mapsto> custom_kernel demo_info)))
   \<and> family (demo_table(''demo'' \<mapsto>
               (family demo_table ''demo'')((1, 0, 0) \<mapsto> custom_kernel demo_info)))
        (op_name demo_info) (GetKernelKey demo_info) = Some (custom_kernel demo_info)
   \<and> RegisterKernelWithMetaInfoMap has_family
        [(''demo'', [demo_info]), (''demo'', [demo_info])] demo_table =
     Thrown InvalidArgument
       (demo_table(''demo'' \<mapsto> (family demo_table ''demo'')((1, 0, 0) \<mapsto> custom_kernel demo_info)))"
  using batch_registration_not_atomic
          [of 1 "[demo_info, demo_info]" has_family demo_table
              "demo_table(''demo'' \<mapsto>
                 (family demo_table ''demo'')((1, 0, 0) \<mapsto> custom_kernel demo_info))"
              InvalidArgument
              "demo_table(''demo'' \<mapsto>
                 (family demo_table ''demo'')((1, 0, 0) \<mapsto> custom_kernel demo_info))"
              1 "[(''demo'', [demo_info]), (''demo'', [demo_info])]"]
        demo_registered demo_registered_twice
  by (simp add: RegisterKernelWithMetaInfoMap_def RegisterKernelWithMetaInfo_def)

subsection \<open>LoadCustomKernelLib\<close>

text \<open>
  C7, as amended. For a library without the symbol \<^verbatim>\<open>PD_GetOpKernelInfoMap\<close>: on a
  build with \<^verbatim>\<open>_LINUX\<close> the loader returns normally, the dispatch table is as it was
  (no kernel is registered) and one warning is added to the log; on a build without
  \<^verbatim>\<open>_LINUX\<close> the loader returns normally with the table and the log as they were.
\<close>

theorem LoadCustomKernelLib_missing_symbol:
  "dso_handle ''PD_GetOpKernelInfoMap'' = None \<longrightarrow>
     (LINUX cfg \<longrightarrow>
        LoadCustomKernelLib cfg H dso_lib_path dso_handle (ks, lg) =
          Done (ks, lg @ [(WARNING, ''Skipped lib ['' @ dso_lib_path @
                             '']: fail to find PD_GetOpKernelInfoMap symbol in this lib.'')]))
     \<and> (\<not> LINUX cfg \<longrightarrow>
        LoadCustomKernelLib cfg H dso_lib_path dso_handle (ks, lg) = Done (ks, lg))"
  by (simp add: LoadCustomKernelLib_def)

theorem LoadCustomKernelLib_missing_symbol_witness:
  "(Map.empty :: (nat, nat) dso) ''PD_GetOpKernelInfoMap'' = None
   \<and> LINUX cpu_build
   \<and> LoadCustomKernelLib cpu_build has_family ''lib.so'' Map.empty (demo_table, []) =
       Done (demo_table,
             [(WARNING, ''Skipped lib [lib.so]: fail to find PD_GetOpKernelInfoMap symbol in this lib.'')])"
  using LoadCustomKernelLib_missing_symbol
          [of "Map.empty :: (nat, nat) dso" cpu_build has_family "''lib.so''" demo_table "[]"]
  by (simp add: cpu_build_def)

text \<open>
  C7 as stated fails on a build without \<^verbatim>\<open>_LINUX\<close> (Windows, macOS): the
  library lacks the symbol and no warning is logged.
\<close>

theorem LoadCustomKernelLib_other_platform_counterexample:
  "(Map.empty :: (nat, nat) dso) ''PD_GetOpKernelInfoMap'' = None
   \<and> LoadCustomKernelLib other_platform_build has_family ''lib.so'' Map.empty (demo_table, []) =
       Done (demo_table, [])"
  by (simp add: LoadCustomKernelLib_def other_platform_build_def)

subsection \<open>RunKernelFunc: what marshalling leaves unchanged\<close>

lemma state_of_and_then:
  assumes "P (state_of r)" and "\<And>s. P s \<Longrightarrow> P (state_of (f s))"
  shows "P (state_of (and_then r f))"
  using assms by (cases r) (simp_all add: and_then_def)

lemma for_each_error:
  assumes "\<And>x s e s'. body x s = Thrown e s' \<Longrightarrow> Q e"
  shows "for_each body xs s = Thrown e s' \<Longrightarrow> Q e"
proof (induction xs arbitrary: s)
  case Nil
  then show ?case by simp
next
  case (Cons x xs)
  then show ?case
    by (cases "body x s") (auto dest: assms)
qed

lemma for_each_snoc_Done:
  "for_each body (xs @ [x]) s = Done s' \<longleftrightarrow>
     (\<exists>s1. for_each body xs s = Done s1 \<and> body x s1 = Done s')"
  by (auto simp: for_each_append split: outcome.splits)

lemma inputs_step_ctx:
  "same_but_inputs c (ctx fr) \<Longrightarrow> same_but_inputs c (ctx (state_of (inputs_step info i fr)))"
  by (auto simp: inputs_step_def same_but_inputs_def MoveInputsBetween_def
           split: option.splits prod.splits if_splits)

lemma attrs_step_eq:
  "attrs_step info i fr =
     (if supported_attr_type (type_index (attribute_defs info ! i))
      then read_attr (type_index (attribute_defs info ! i)) i fr
      else Thrown Unimplemented fr)"
  by (simp add: attrs_step_def supported_attr_type_def Let_def)

lemma read_attr_ctx: "ctx (state_of (read_attr T i fr)) = ctx fr"
  by (simp add: read_attr_def split: option.splits)

lemma attrs_step_ctx: "ctx (state_of (attrs_step info i fr)) = ctx fr"
  by (simp add: attrs_step_eq read_attr_ctx)

lemma outputs_step_ctx: "ctx (state_of (outputs_step info i fr)) = ctx fr"
  by (auto simp: outputs_step_def split: option.splits prod.splits)

lemma marshal_ctx: "same_but_inputs c (ctx (state_of (marshal info (enter c m))))"
  unfolding marshal_def
proof (intro state_of_and_then [where P = "\<lambda>s. same_but_inputs c (ctx s)"])
  show "same_but_inputs c
         (ctx (state_of (for_each (inputs_step info) [0..<length (input_defs info)] (enter c m))))"
    by (rule for_each_preserves [where P = "\<lambda>s. same_but_inputs c (ctx s)"])
       (erule inputs_step_ctx, simp add: same_but_inputs_def enter_def)
next
  fix s :: "('a, 'b) frame"
  assume "same_but_inputs c (ctx s)"
  then show "same_but_inputs c
         (ctx (state_of (for_each (attrs_step info) [0..<length (attribute_defs info)] s)))"
    by (rule for_each_preserves [where P = "\<lambda>s. same_but_inputs c (ctx s)", rotated])
       (simp add: attrs_step_ctx)
next
  fix s :: "('a, 'b) frame"
  assume "same_but_inputs c (ctx s)"
  then show "same_but_inputs c
         (ctx (state_of (for_each (outputs_step info) [0..<length (output_defs info)] s)))"
    by (rule for_each_preserves [where P = "\<lambda>s. same_but_inputs c (ctx s)", rotated])
       (simp add: outputs_step_ctx)
qed

subsection \<open>RunKernelFunc: a backend that is not the CPU\<close>

lemma RunKernelFunc_not_CPU:
  assumes "kernel_backend info \<noteq> Backend_CPU cfg"
  shows "RunKernelFunc cfg m c info =
     (if \<not> size_invariants c info then Thrown InvalidArgument (c, [])
      else case marshal info (enter c m) of
             Thrown e fr \<Rightarrow> Thrown e (ctx fr, [])
           | Done fr \<Rightarrow>
               if PADDLE_WITH_CUSTOM_DEVICE cfg
                  \<and> device_type_of cfg (kernel_backend info) \<noteq> []
               then Done (ctx fr, [])
               else Done (ctx fr, [LOG ERROR ''[CUSTOM KERNEL] Unsupported kernel backend'']))"
  using assms by (auto simp: RunKernelFunc_def size_invariants_def Let_def split: outcome.splits)

text \<open>
  C5, as amended. When the backend of the signature is not the CPU and does not resolve to
  a device type (the build has no \<^verbatim>\<open>PADDLE_WITH_CUSTOM_DEVICE\<close>, or the global table
  has no name for it), the user function is not called and no output slot changes,
  whatever the call does. If moreover the three size checks pass and the three
  marshalling loops throw nothing, \<^verbatim>\<open>RunKernelFunc\<close> writes one \<^verbatim>\<open>LOG(ERROR)\<close> line
  and returns normally.
\<close>

theorem unresolved_backend_is_skipped:
  "kernel_backend info \<noteq> Backend_CPU cfg
   \<and> (\<not> PADDLE_WITH_CUSTOM_DEVICE cfg \<or> device_type_of cfg (kernel_backend info) = []) \<longrightarrow>
     \<not> invoked (snd (state_of (RunKernelFunc cfg m c info)))
     \<and> outputs (fst (state_of (RunKernelFunc cfg m c info))) = outputs c
     \<and> (size_invariants c info \<and> marshal info (enter c m) = Done fr \<longrightarrow>
          RunKernelFunc cfg m c info =
            Done (ctx fr, [LOG ERROR ''[CUSTOM KERNEL] Unsupported kernel backend'']))"
proof (intro impI)
  assume a: "kernel_backend info \<noteq> Backend_CPU cfg
   \<and> (\<not> PADDLE_WITH_CUSTOM_DEVICE cfg \<or> device_type_of cfg (kernel_backend info) = [])"
  have out: "outputs (ctx (state_of (marshal info (enter c m)))) = outputs c"
    using marshal_ctx [of c info m] by (simp add: same_but_inputs_def)
  from a have eq: "RunKernelFunc cfg m c info =
     (if \<not> size_invariants c info then Thrown InvalidArgument (c, [])
      else case marshal info (enter c m) of
             Thrown e fr \<Rightarrow> Thrown e (ctx fr, [])
           | Done fr \<Rightarrow> Done (ctx fr, [LOG ERROR ''[CUSTOM KERNEL] Unsupported kernel backend'']))"
    by (auto simp: RunKernelFunc_not_CPU split: outcome.splits)
  show "\<not> invoked (snd (state_of (RunKernelFunc cfg m c info)))
     \<and> outputs (fst (state_of (RunKernelFunc cfg m c info))) = outputs c
     \<and> (size_invariants c info \<and> marshal info (enter c m) = Done fr \<longrightarrow>
          RunKernelFunc cfg m c info =
            Done (ctx fr, [LOG ERROR ''[CUSTOM KERNEL] Unsupported kernel backend'']))"
    using out unfolding eq
    by (cases "marshal info (enter c m)") (auto simp: invoked_def)
qed

subsection \<open>RunKernelFunc: attributes\<close>

lemma upt_split_at: "k < n \<Longrightarrow> [0..<n] = [0..<k] @ k # [Suc k..<n]"
  using upt_add_eq_append [of 0 k "n - k"] by (simp add: upt_conv_Cons)

lemma attrs_loop_fails:
  assumes "k < n" and "\<not> supported_attr_type (type_index (attribute_defs info ! k))"
  shows "caught (for_each (attrs_step info) [0..<n] s) \<noteq> None"
proof -
  have "for_each (attrs_step info) ([0..<k] @ k # [Suc k..<n]) s =
          (case for_each (attrs_step info) [0..<k] s of
             Done s' \<Rightarrow> Thrown Unimplemented s'
           | Thrown e s' \<Rightarrow> Thrown e s')"
    using assms(2) by (simp add: for_each_append attrs_step_eq split: outcome.splits)
  with upt_split_at [OF assms(1)] show ?thesis
    by (simp split: outcome.splits)
qed

lemma read_attr_Done:
  "j < length (attrs (ctx s)) \<Longrightarrow> held_type (attrs (ctx s) ! j) = T \<Longrightarrow>
   read_attr T j s = Done (s\<lparr>custom_attrs := custom_attrs s @ [Any T (held_value (attrs (ctx s) ! j))]\<rparr>)"
  by (simp add: read_attr_def AttrAt_def)

lemma attrs_loop_prefix:
  assumes "\<forall>j<k. supported_attr_type (type_index (attribute_defs info ! j))
                 \<and> j < length (attrs (ctx s))
                 \<and> held_type (attrs (ctx s) ! j) = type_index (attribute_defs info ! j)"
  shows "\<exists>s'. for_each (attrs_step info) [0..<k] s = Done s' \<and> ctx s' = ctx s"
  using assms
proof (induction k)
  case 0
  then show ?case by simp
next
  case (Suc k)
  then obtain s' where s': "for_each (attrs_step info) [0..<k] s = Done s'" "ctx s' = ctx s"
    by auto
  from Suc.prems have "supported_attr_type (type_index (attribute_defs info ! k))"
    and "k < length (attrs (ctx s'))"
    and "held_type (attrs (ctx s') ! k) = type_index (attribute_defs info ! k)"
    using s'(2) by auto
  then have "\<exists>s''. attrs_step info k s' = Done s'' \<and> ctx s'' = ctx s'"
    by (simp add: attrs_step_eq read_attr_Done)
  with s' show ?case by (auto simp: for_each_append)
qed

lemma attrs_loop_Unimplemented:
  assumes "k < n" and "\<not> supported_attr_type (type_index (attribute_defs info ! k))"
    and "\<forall>j<k. supported_attr_type (type_index (attribute_defs info ! j))
                 \<and> j < length (attrs (ctx s))
                 \<and> held_type (attrs (ctx s) ! j) = type_index (attribute_defs info ! j)"
  shows "\<exists>s'. for_each (attrs_step info) [0..<n] s = Thrown Unimplemented s' \<and> ctx s' = ctx s"
proof -
  from attrs_loop_prefix [OF assms(3)] obtain s' where
    s': "for_each (attrs_step info) [0..<k] s = Done s'" "ctx s' = ctx s" by auto
  have "attrs_step info k s' = Thrown Unimplemented s'"
    using assms(2) by (simp add: attrs_step_eq)
  with s'(1) have "for_each (attrs_step info) ([0..<k] @ k # [Suc k..<n]) s = Thrown Unimplemented s'"
    by (rule for_each_stops)
  with upt_split_at [OF assms(1)] s'(2) show ?thesis by simp
qed

lemma marshal_fails:
  assumes "k < length (attribute_defs info)"
    and "\<not> supported_attr_type (type_index (attribute_defs info ! k))"
  shows "caught (marshal info fr) \<noteq> None"
proof (cases "for_each (inputs_step info) [0..<length (input_defs info)] fr")
  case (Done fr1)
  with attrs_loop_fails [OF assms, of fr1] show ?thesis
    by (cases "for_each (attrs_step info) [0..<length (attribute_defs info)] fr1")
       (simp_all add: marshal_def and_then_def)
next
  case (Thrown e fr1)
  then show ?thesis by (simp add: marshal_def and_then_def)
qed

lemma RunKernelFunc_marshal_Thrown:
  "size_invariants c info \<Longrightarrow> marshal info (enter c m) = Thrown e fr \<Longrightarrow>
   RunKernelFunc cfg m c info = Thrown e (ctx fr, [])"
  by (auto simp: RunKernelFunc_def size_invariants_def Let_def)

lemma RunKernelFunc_sizes_Thrown:
  "\<not> size_invariants c info \<Longrightarrow> RunKernelFunc cfg m c info = Thrown InvalidArgument (c, [])"
  by (auto simp: RunKernelFunc_def size_invariants_def Let_def)

text \<open>
  C4, as amended. When the signature has an attribute spec of a type outside the eleven
  types of the chain, \<^verbatim>\<open>RunKernelFunc\<close> never returns normally, never calls the user
  function and changes no output slot. The exception is \<open>Unimplemented\<close> when the three
  size checks pass, the inputs loop throws nothing and every attribute before that spec
  has a type of the chain and a box of that type in the context.
\<close>

theorem unsupported_attribute_fails:
  "k < length (attribute_defs info)
   \<and> \<not> supported_attr_type (type_index (attribute_defs info ! k)) \<longrightarrow>
     caught (RunKernelFunc cfg m c info) \<noteq> None
     \<and> \<not> invoked (snd (state_of (RunKernelFunc cfg m c info)))
     \<and> outputs (fst (state_of (RunKernelFunc cfg m c info))) = outputs c
     \<and> (size_invariants c info
         \<and> for_each (inputs_step info) [0..<length (input_defs info)] (enter c m) = Done fr
         \<and> (\<forall>j<k. supported_attr_type (type_index (attribute_defs info ! j))
                   \<and> held_type (attrs c ! j) = type_index (attribute_defs info ! j)) \<longrightarrow>
          RunKernelFunc cfg m c info = Thrown Unimplemented (ctx fr, []))"
proof (intro impI)
  assume a: "k < length (attribute_defs info)
   \<and> \<not> supported_attr_type (type_index (attribute_defs info ! k))"
  then have k: "k < length (attribute_defs info)"
    and un: "\<not> supported_attr_type (type_index (attribute_defs info ! k))" by simp_all
  from marshal_fails [OF k un, of "enter c m"] obtain e fr0 where
    thrown: "marshal info (enter c m) = Thrown e fr0"
    by (cases "marshal info (enter c m)") auto
  have out: "outputs (ctx fr0) = outputs c"
    using marshal_ctx [of c info m] thrown by (simp add: same_but_inputs_def)
  have first: "caught (RunKernelFunc cfg m c info) \<noteq> None
     \<and> \<not> invoked (snd (state_of (RunKernelFunc cfg m c info)))
     \<and> outputs (fst (state_of (RunKernelFunc cfg m c info))) = outputs c"
  proof (cases "size_invariants c info")
    case True
    from RunKernelFunc_marshal_Thrown [OF True thrown, of cfg] out show ?thesis
      by (simp add: invoked_def)
  next
    case False
    from RunKernelFunc_sizes_Thrown [OF False, of cfg m] show ?thesis
      by (simp add: invoked_def)
  qed
  have second: "RunKernelFunc cfg m c info = Thrown Unimplemented (ctx fr, [])"
    if b: "size_invariants c info
         \<and> for_each (inputs_step info) [0..<length (input_defs info)] (enter c m) = Done fr
         \<and> (\<forall>j<k. supported_attr_type (type_index (attribute_defs info ! j))
                   \<and> held_type (attrs c ! j) = type_index (attribute_defs info ! j))"
  proof -
    from b have sz: "size_invariants c info"
      and ins: "for_each (inputs_step info) [0..<length (input_defs info)] (enter c m) = Done fr"
      by simp_all
    have "same_but_inputs c (ctx (state_of
            (for_each (inputs_step info) [0..<length (input_defs info)] (enter c m))))"
      by (rule for_each_preserves [where P = "\<lambda>s. same_but_inputs c (ctx s)"])
         (erule inputs_step_ctx, simp add: same_but_inputs_def enter_def)
    with ins have at: "attrs (ctx fr) = attrs c" by (simp add: same_but_inputs_def)
    from sz k have len: "\<forall>j<k. j < length (attrs c)"
      by (simp add: size_invariants_def AttrsSize_def)
    from b at len
    have "\<forall>j<k. supported_attr_type (type_index (attribute_defs info ! j))
                 \<and> j < length (attrs (ctx fr))
                 \<and> held_type (attrs (ctx fr) ! j) = type_index (attribute_defs info ! j)"
      by simp
    from attrs_loop_Unimplemented [OF k un this] obtain s' where
      s': "for_each (attrs_step info) [0..<length (attribute_defs info)] fr = Thrown Unimplemented s'"
          "ctx s' = ctx fr" by auto
    with ins have "marshal info (enter c m) = Thrown Unimplemented s'"
      by (simp add: marshal_def and_then_def)
    from RunKernelFunc_marshal_Thrown [OF sz this, of cfg] s'(2) show ?thesis by simp
  qed
  from first second
  show "caught (RunKernelFunc cfg m c info) \<noteq> None
     \<and> \<not> invoked (snd (state_of (RunKernelFunc cfg m c info)))
     \<and> outputs (fst (state_of (RunKernelFunc cfg m c info))) = outputs c
     \<and> (size_invariants c info
         \<and> for_each (inputs_step info) [0..<length (input_defs info)] (enter c m) = Done fr
         \<and> (\<forall>j<k. supported_attr_type (type_index (attribute_defs info ! j))
                   \<and> held_type (attrs c ! j) = type_index (attribute_defs info ! j)) \<longrightarrow>
          RunKernelFunc cfg m c info = Thrown Unimplemented (ctx fr, []))"
    by blast
qed

subsection \<open>The properties on the examples\<close>

lemmas model_defs =
  RunKernelFunc_def marshal_def and_then_def enter_def inputs_step_def attrs_step_def
  read_attr_def outputs_step_def wrap_inputs_def wrap_outputs_def make_shared_def
  call_user_kernel_fn_def call_event_def map_back_def map_back_step_def copy_back_elem_def
  device_type_of_def InputsSize_def OutputsSize_def AttrsSize_def InputRangeAt_def
  OutputRangeAt_def InputAt_def MoveInputsBetween_def slots_present_def MutableOutputAt_def
  MutableOutputBetween_def AttrAt_def assign_output_def default_DeviceContext_def
  set_stream_def size_invariants_def Let_def upt_conv_Cons

lemmas demo_defs =
  demo_info_def demo_ctx_def doubling_kernel_def single_def_def list_def_def
  blank_heap_def cpu_build_def custom_device_build_def accelerator_info_def
  string_attr_info_def string_attr_ctx_def

lemma Done_state_of: "caught r = None \<Longrightarrow> r = Done (state_of r)"
  by (cases r) simp_all

lemma accelerator_marshal:
  "marshal accelerator_info (enter demo_ctx blank_heap) =
     Done (state_of (marshal accelerator_info (enter demo_ctx blank_heap)))"
  by (rule Done_state_of) (simp add: model_defs demo_defs)

theorem unresolved_backend_is_skipped_witness:
  "kernel_backend accelerator_info \<noteq> Backend_CPU cpu_build
   \<and> \<not> PADDLE_WITH_CUSTOM_DEVICE cpu_build
   \<and> size_invariants demo_ctx accelerator_info
   \<and> RunKernelFunc cpu_build blank_heap demo_ctx accelerator_info =
       Done (demo_ctx\<lparr>inputs := [Some 1, Some 2, None, None, None]\<rparr>,
             [LOG ERROR ''[CUSTOM KERNEL] Unsupported kernel backend''])
   \<and> outputs (fst (state_of (RunKernelFunc cpu_build blank_heap demo_ctx accelerator_info)))
       = outputs demo_ctx"
  using unresolved_backend_is_skipped
          [of accelerator_info cpu_build blank_heap demo_ctx
              "state_of (marshal accelerator_info (enter demo_ctx blank_heap))"]
        accelerator_marshal
  by (simp add: model_defs demo_defs)

text \<open>
  C5 as stated fails when a size check fails first: the backend is not the CPU and does
  not resolve, and the call throws \<open>InvalidArgument\<close> and logs nothing.
\<close>

theorem unresolved_backend_counterexample:
  "kernel_backend accelerator_info \<noteq> Backend_CPU cpu_build
   \<and> \<not> PADDLE_WITH_CUSTOM_DEVICE cpu_build
   \<and> RunKernelFunc cpu_build blank_heap (demo_ctx\<lparr>attrs := []\<rparr>) accelerator_info =
       Thrown InvalidArgument (demo_ctx\<lparr>attrs := []\<rparr>, [])"
  by (simp add: model_defs demo_defs)

lemma string_attr_inputs:
  "for_each (inputs_step string_attr_info) [0..<length (input_defs string_attr_info)]
     (enter string_attr_ctx blank_heap) =
   Done (state_of (for_each (inputs_step string_attr_info)
           [0..<length (input_defs string_attr_info)] (enter string_attr_ctx blank_heap)))"
  by (rule Done_state_of) (simp add: model_defs demo_defs)

theorem unsupported_attribute_fails_witness:
  "1 < length (attribute_defs string_attr_info)
   \<and> \<not> supported_attr_type (type_index (attribute_defs string_attr_info ! 1))
   \<and> size_invariants string_attr_ctx string_attr_info
   \<and> RunKernelFunc cpu_build blank_heap string_attr_ctx string_attr_info =
       Thrown Unimplemented (string_attr_ctx\<lparr>inputs := [Some 1, Some 2, None, None, None]\<rparr>, [])
   \<and> outputs (fst (state_of (RunKernelFunc cpu_build blank_heap string_attr_ctx string_attr_info)))
       = outputs string_attr_ctx"
  using unsupported_attribute_fails
          [of 1 string_attr_info cpu_build blank_heap string_attr_ctx
              "state_of (for_each (inputs_step string_attr_info)
                 [0..<length (input_defs string_attr_info)] (enter string_attr_ctx blank_heap))"]
        string_attr_inputs
  by (simp add: model_defs demo_defs supported_attr_type_def)

text \<open>
  C4 as stated fails when a size check fails first: the signature has an attribute spec of
  a type outside the chain, the context has one attribute for two specs, and the call
  throws \<open>InvalidArgument\<close>, not \<open>Unimplemented\<close>.
\<close>

theorem unsupported_attribute_counterexample:
  "1 < length (attribute_defs string_attr_info)
   \<and> \<not> supported_attr_type (type_index (attribute_defs string_attr_info ! 1))
   \<and> RunKernelFunc cpu_build blank_heap demo_ctx string_attr_info =
       Thrown InvalidArgument (demo_ctx, [])"
  by (simp add: model_defs demo_defs supported_attr_type_def)

text \<open>
  C2. The code returns at line 248, right after \<^verbatim>\<open>dev_ctx.set_stream\<close>: with a backend
  that resolves to the device type \<open>''npu''\<close> the call of the end-to-end scenario returns
  normally with an empty trace (the user function is not called) and the output slots as
  they were, where the same call on the CPU backend leaves \<open>[2, 6, 8]\<close> in them.
\<close>

theorem accelerator_call_returns_before_kernel:
  "kernel_backend accelerator_info \<noteq> Backend_CPU custom_device_build
   \<and> PADDLE_WITH_CUSTOM_DEVICE custom_device_build
   \<and> device_type_of custom_device_build (kernel_backend accelerator_info) = ''npu''
   \<and> size_invariants demo_ctx accelerator_info
   \<and> RunKernelFunc custom_device_build blank_heap demo_ctx accelerator_info =
       Done (demo_ctx\<lparr>inputs := [Some 1, Some 2, None, None, None]\<rparr>, [])
   \<and> outputs (fst (state_of (RunKernelFunc cpu_build blank_heap demo_ctx demo_info)))
       = [2, 6, 8]"
  by (simp add: model_defs demo_defs)

lemma accelerator_backend_never_calls:
  "kernel_backend info \<noteq> Backend_CPU cfg \<Longrightarrow>
   \<not> invoked (snd (state_of (RunKernelFunc cfg m c info)))"
  by (auto simp: RunKernelFunc_not_CPU invoked_def split: outcome.splits)

subsection \<open>RunKernelFunc: list-valued inputs are moved out\<close>

lemma MoveInputsBetween_Some:
  assumes "MoveInputsBetween c a b = Some (ts, c')"
  shows "input_range c' = input_range c"
    and "length (inputs c') = length (inputs c)"
    and "\<And>s. a \<le> s \<Longrightarrow> s < b \<Longrightarrow>
           s < length (inputs c) \<and> inputs c ! s \<noteq> None \<and> inputs c' ! s = None"
    and "\<And>s. s < length (inputs c) \<Longrightarrow> \<not> (a \<le> s \<and> s < b) \<Longrightarrow>
           inputs c' ! s = inputs c ! s"
  using assms
  by (auto simp: MoveInputsBetween_def slots_present_def list_all_iff split: if_splits)

lemma inputs_step_Done:
  assumes "inputs_step info i fr = Done fr'"
  shows "input_range (ctx fr') = input_range (ctx fr)"
    and "length (inputs (ctx fr')) = length (inputs (ctx fr))"
    and "\<And>s. is_vector (input_defs info ! i) \<Longrightarrow> fst (input_range (ctx fr) ! i) \<le> s \<Longrightarrow>
           s < snd (input_range (ctx fr) ! i) \<Longrightarrow>
           s < length (inputs (ctx fr)) \<and> inputs (ctx fr) ! s \<noteq> None
           \<and> inputs (ctx fr') ! s = None"
    and "\<And>s. s < length (inputs (ctx fr)) \<Longrightarrow> inputs (ctx fr') ! s \<noteq> None \<Longrightarrow>
           inputs (ctx fr') ! s = inputs (ctx fr) ! s"
proof -
  from assms obtain rng where rng: "InputRangeAt (ctx fr) i = Some rng"
    by (auto simp: inputs_step_def split: option.splits)
  then have r: "rng = input_range (ctx fr) ! i"
    by (auto simp: InputRangeAt_def split: if_splits)
  show "input_range (ctx fr') = input_range (ctx fr)"
    and "length (inputs (ctx fr')) = length (inputs (ctx fr))"
    using assms rng
    by (auto simp: inputs_step_def dest: MoveInputsBetween_Some(1,2)
             split: option.splits prod.splits if_splits)
  show "s < length (inputs (ctx fr)) \<and> inputs (ctx fr) ! s \<noteq> None
           \<and> inputs (ctx fr') ! s = None"
    if "is_vector (input_defs info ! i)" "fst (input_range (ctx fr) ! i) \<le> s"
       "s < snd (input_range (ctx fr) ! i)" for s
  proof -
    from assms rng that(1) obtain ts c' where
      mv: "MoveInputsBetween (ctx fr) (fst rng) (snd rng) = Some (ts, c')" and "ctx fr' = c'"
      by (auto simp: inputs_step_def split: option.splits prod.splits)
    with MoveInputsBetween_Some(3) [OF mv, of s] that r show ?thesis by simp
  qed
  show "inputs (ctx fr') ! s = inputs (ctx fr) ! s"
    if "s < length (inputs (ctx fr))" "inputs (ctx fr') ! s \<noteq> None" for s
  proof (cases "is_vector (input_defs info ! i)")
    case True
    with assms rng obtain ts c' where
      mv: "MoveInputsBetween (ctx fr) (fst rng) (snd rng) = Some (ts, c')" and c': "ctx fr' = c'"
      by (auto simp: inputs_step_def split: option.splits prod.splits)
    from MoveInputsBetween_Some(3) [OF mv, of s] that(2) c'
    have "\<not> (fst rng \<le> s \<and> s < snd rng)" by auto
    from MoveInputsBetween_Some(4) [OF mv that(1) this] c' show ?thesis by simp
  next
    case False
    with assms rng show ?thesis
      by (auto simp: inputs_step_def split: option.splits prod.splits)
  qed
qed

lemma inputs_loop_Done:
  assumes "for_each (inputs_step info) [0..<n] fr = Done fr'"
  shows "input_range (ctx fr') = input_range (ctx fr)
         \<and> length (inputs (ctx fr')) = length (inputs (ctx fr))
         \<and> (\<forall>s<length (inputs (ctx fr)). inputs (ctx fr') ! s \<noteq> None \<longrightarrow>
                inputs (ctx fr') ! s = inputs (ctx fr) ! s)
         \<and> (\<forall>i<n. is_vector (input_defs info ! i) \<longrightarrow>
               (\<forall>s. fst (input_range (ctx fr) ! i) \<le> s \<and> s < snd (input_range (ctx fr) ! i) \<longrightarrow>
                  s < length (inputs (ctx fr)) \<and> inputs (ctx fr) ! s \<noteq> None
                  \<and> inputs (ctx fr') ! s = None))"
  using assms
proof (induction n arbitrary: fr')
  case 0
  then show ?case by simp
next
  case (Suc n)
  from Suc.prems obtain fr1 where
    pre: "for_each (inputs_step info) [0..<n] fr = Done fr1" and
    step: "inputs_step info n fr1 = Done fr'"
    by (auto simp: for_each_snoc_Done)
  note ih = Suc.IH [OF pre]
  note st = inputs_step_Done [OF step]
  have rng: "input_range (ctx fr') = input_range (ctx fr)"
    and len: "length (inputs (ctx fr')) = length (inputs (ctx fr))"
    using ih st(1,2) by simp_all
  have keep: "inputs (ctx fr') ! s = inputs (ctx fr) ! s"
    if "s < length (inputs (ctx fr))" "inputs (ctx fr') ! s \<noteq> None" for s
  proof -
    from that ih have s1: "s < length (inputs (ctx fr1))" by simp
    from st(4) [OF s1 that(2)] have e: "inputs (ctx fr') ! s = inputs (ctx fr1) ! s" .
    with that(2) have "inputs (ctx fr1) ! s \<noteq> None" by simp
    with ih that(1) have "inputs (ctx fr1) ! s = inputs (ctx fr) ! s" by simp
    with e show ?thesis by simp
  qed
  have moved: "s < length (inputs (ctx fr)) \<and> inputs (ctx fr) ! s \<noteq> None
                  \<and> inputs (ctx fr') ! s = None"
    if "i < Suc n" "is_vector (input_defs info ! i)"
       "fst (input_range (ctx fr) ! i) \<le> s" "s < snd (input_range (ctx fr) ! i)" for i s
  proof (cases "i = n")
    case True
    from ih have r1: "input_range (ctx fr1) = input_range (ctx fr)" by simp
    from st(3) [of s] that True r1
    have a: "s < length (inputs (ctx fr1))" "inputs (ctx fr1) ! s \<noteq> None"
            "inputs (ctx fr') ! s = None" by simp_all
    from a(1) ih have s0: "s < length (inputs (ctx fr))" by simp
    with a(2) ih have "inputs (ctx fr1) ! s = inputs (ctx fr) ! s" by simp
    with a s0 show ?thesis by simp
  next
    case False
    with that(1) have "i < n" by simp
    with ih that have a: "s < length (inputs (ctx fr))" "inputs (ctx fr) ! s \<noteq> None"
      "inputs (ctx fr1) ! s = None" by blast+
    from a(1) ih have s1: "s < length (inputs (ctx fr1))" by simp
    have "inputs (ctx fr') ! s = None"
    proof (rule ccontr)
      assume "inputs (ctx fr') ! s \<noteq> None"
      from st(4) [OF s1 this] a(3) this show False by simp
    qed
    with a show ?thesis by simp
  qed
  from rng len keep moved show ?case by blast
qed

lemma inputs_step_error: "inputs_step info i fr = Thrown e s \<Longrightarrow> e = AccessFault"
  by (auto simp: inputs_step_def split: option.splits prod.splits if_splits)

lemma outputs_step_error: "outputs_step info i fr = Thrown e s \<Longrightarrow> e = AccessFault"
  by (auto simp: outputs_step_def split: option.splits prod.splits if_splits)

lemma copy_back_elem_error: "copy_back_elem h v idx s = Thrown e s' \<Longrightarrow> e = AccessFault"
  by (auto simp: copy_back_elem_def split: prod.splits if_splits)

lemma map_back_step_error: "map_back_step info i fr = Thrown e s \<Longrightarrow> e = AccessFault"
  by (auto simp: map_back_step_def
           split: option.splits prod.splits if_splits outcome.splits
           dest!: for_each_error [where Q = "\<lambda>e. e = AccessFault", rotated]
           dest: copy_back_elem_error)

lemma map_back_error: "map_back info fr = Thrown e s \<Longrightarrow> e = AccessFault"
  unfolding map_back_def
  by (erule for_each_error [where Q = "\<lambda>e. e = AccessFault", rotated])
     (rule map_back_step_error)

lemma attrs_loop_ctx: "ctx (state_of (for_each (attrs_step info) xs fr)) = ctx fr"
  by (rule for_each_preserves [where P = "\<lambda>s. ctx s = ctx fr"]) (simp_all add: attrs_step_ctx)

lemma RunKernelFunc_Unimplemented:
  assumes "RunKernelFunc cfg m c info = Thrown Unimplemented (c', tr)"
  shows "\<exists>fr1. for_each (inputs_step info) [0..<length (input_defs info)] (enter c m) = Done fr1
               \<and> c' = ctx fr1 \<and> tr = []"
proof -
  have sz: "size_invariants c info"
  proof (rule ccontr)
    assume "\<not> size_invariants c info"
    from RunKernelFunc_sizes_Thrown [OF this, of cfg m] assms show False by simp
  qed
  let ?I = "for_each (inputs_step info) [0..<length (input_defs info)] (enter c m)"
  show ?thesis
  proof (cases ?I)
    case (Thrown e fr1)
    then have "e = AccessFault"
      by (rule for_each_error [where Q = "\<lambda>e. e = AccessFault", rotated])
         (rule inputs_step_error)
    with Thrown have "marshal info (enter c m) = Thrown AccessFault fr1"
      by (simp add: marshal_def and_then_def)
    from RunKernelFunc_marshal_Thrown [OF sz this, of cfg] assms show ?thesis by simp
  next
    case (Done fr1)
    let ?A = "for_each (attrs_step info) [0..<length (attribute_defs info)] fr1"
    show ?thesis
    proof (cases ?A)
      case (Thrown e fr2)
      with attrs_loop_ctx [of info "[0..<length (attribute_defs info)]" fr1]
      have c2: "ctx fr2 = ctx fr1" by simp
      from Done Thrown have "marshal info (enter c m) = Thrown e fr2"
        by (simp add: marshal_def and_then_def)
      from RunKernelFunc_marshal_Thrown [OF sz this, of cfg] assms c2 Done
      show ?thesis by simp
    next
      case A: (Done fr2)
      let ?O = "for_each (outputs_step info) [0..<length (output_defs info)] fr2"
      show ?thesis
      proof (cases ?O)
        case (Thrown e fr3)
        then have "e = AccessFault"
          by (rule for_each_error [where Q = "\<lambda>e. e = AccessFault", rotated])
             (rule outputs_step_error)
        with Thrown Done A have "marshal info (enter c m) = Thrown AccessFault fr3"
          by (simp add: marshal_def and_then_def)
        from RunKernelFunc_marshal_Thrown [OF sz this, of cfg] assms show ?thesis by simp
      next
        case O: (Done fr3)
        with Done A have mar: "marshal info (enter c m) = Done fr3"
          by (simp add: marshal_def and_then_def)
        have False
        proof (cases "kernel_backend info = Backend_CPU cfg")
          case True
          with sz mar assms obtain fr4 where
            "map_back info (call_user_kernel_fn default_DeviceContext info fr3)
               = Thrown Unimplemented fr4"
            by (auto simp: RunKernelFunc_def size_invariants_def Let_def split: outcome.splits)
          from map_back_error [OF this] show False by simp
        next
          case False
          with sz mar assms show False
            by (auto simp: RunKernelFunc_not_CPU split: if_splits)
        qed
        then show ?thesis ..
      qed
    qed
  qed
qed

text \<open>
  C9. The \<open>Unimplemented\<close> path is not atomic for the inputs. When \<^verbatim>\<open>RunKernelFunc\<close>
  throws \<open>Unimplemented\<close>, every slot in the range of every list-valued input spec held a
  tensor when the call began and is moved out (\<open>None\<close>) in the context the exception
  leaves behind.
\<close>

theorem unimplemented_path_consumes_list_inputs:
  "RunKernelFunc cfg m c info = Thrown Unimplemented (c', tr)
   \<and> i < length (input_defs info) \<and> is_vector (input_defs info ! i)
   \<and> fst (input_range c ! i) \<le> s \<and> s < snd (input_range c ! i) \<longrightarrow>
     s < length (inputs c) \<and> inputs c ! s \<noteq> None
     \<and> s < length (inputs c') \<and> inputs c' ! s = None"
proof (intro impI)
  assume a: "RunKernelFunc cfg m c info = Thrown Unimplemented (c', tr)
   \<and> i < length (input_defs info) \<and> is_vector (input_defs info ! i)
   \<and> fst (input_range c ! i) \<le> s \<and> s < snd (input_range c ! i)"
  then obtain fr1 where
    ins: "for_each (inputs_step info) [0..<length (input_defs info)] (enter c m) = Done fr1"
    and c': "c' = ctx fr1"
    using RunKernelFunc_Unimplemented [of cfg m c info c' tr] by auto
  from inputs_loop_Done [OF ins] a c'
  show "s < length (inputs c) \<and> inputs c ! s \<noteq> None
     \<and> s < length (inputs c') \<and> inputs c' ! s = None"
    by (auto simp: enter_def)
qed

theorem unimplemented_path_consumes_list_inputs_witness:
  "RunKernelFunc cpu_build blank_heap string_attr_ctx string_attr_info =
     Thrown Unimplemented (string_attr_ctx\<lparr>inputs := [Some 1, Some 2, None, None, None]\<rparr>, [])
   \<and> is_vector (input_defs string_attr_info ! 2)
   \<and> input_range string_attr_ctx ! 2 = (2, 5)
   \<and> inputs string_attr_ctx ! 3 = Some 4
   \<and> inputs (string_attr_ctx\<lparr>inputs := [Some 1, Some 2, None, None, None]\<rparr>) ! 3 = None"
  using unimplemented_path_consumes_list_inputs
          [of cpu_build blank_heap string_attr_ctx string_attr_info
              "string_attr_ctx\<lparr>inputs := [Some 1, Some 2, None, None, None]\<rparr>" "[]" 2 3]
  by (simp add: model_defs demo_defs supported_attr_type_def)

subsection \<open>RunKernelFunc: the write-back\<close>

lemma scalar_pos_Suc:
  "k < length defs \<Longrightarrow>
   scalar_pos defs (Suc k) = scalar_pos defs k + (if is_vector (defs ! k) then 0 else 1)"
  by (simp add: scalar_pos_def take_Suc_conv_app_nth)

lemma vector_pos_Suc:
  "k < length defs \<Longrightarrow>
   vector_pos defs (Suc k) = vector_pos defs k + (if is_vector (defs ! k) then 1 else 0)"
  by (simp add: vector_pos_def take_Suc_conv_app_nth)

lemma scalar_pos_mono: "i \<le> k \<Longrightarrow> k \<le> length defs \<Longrightarrow> scalar_pos defs i \<le> scalar_pos defs k"
proof (induction k)
  case 0
  then show ?case by simp
next
  case (Suc k)
  show ?case
  proof (cases "i = Suc k")
    case True
    then show ?thesis by simp
  next
    case False
    with Suc.prems have "i \<le> k" "k \<le> length defs" "k < length defs" by simp_all
    with Suc.IH scalar_pos_Suc [of k defs] show ?thesis by simp
  qed
qed

lemma vector_pos_mono: "i \<le> k \<Longrightarrow> k \<le> length defs \<Longrightarrow> vector_pos defs i \<le> vector_pos defs k"
proof (induction k)
  case 0
  then show ?case by simp
next
  case (Suc k)
  show ?case
  proof (cases "i = Suc k")
    case True
    then show ?thesis by simp
  next
    case False
    with Suc.prems have "i \<le> k" "k \<le> length defs" "k < length defs" by simp_all
    with Suc.IH vector_pos_Suc [of k defs] show ?thesis by simp
  qed
qed

lemma scalar_pos_less:
  assumes "i < k" "k \<le> length defs" "\<not> is_vector (defs ! i)"
  shows "scalar_pos defs i < scalar_pos defs k"
proof -
  from assms have "scalar_pos defs (Suc i) = scalar_pos defs i + 1"
    by (simp add: scalar_pos_Suc)
  moreover from assms have "scalar_pos defs (Suc i) \<le> scalar_pos defs k"
    by (intro scalar_pos_mono) simp_all
  ultimately show ?thesis by simp
qed

lemma vector_pos_less:
  assumes "i < k" "k \<le> length defs" "is_vector (defs ! i)"
  shows "vector_pos defs i < vector_pos defs k"
proof -
  from assms have "vector_pos defs (Suc i) = vector_pos defs i + 1"
    by (simp add: vector_pos_Suc)
  moreover from assms have "vector_pos defs (Suc i) \<le> vector_pos defs k"
    by (intro vector_pos_mono) simp_all
  ultimately show ?thesis by simp
qed

lemma copy_back_loop:
  assumes "n \<le> length v" "length st = n" "distinct v"
      and "\<forall>s\<in>set v. s < length (outputs c)"
  shows "\<exists>new. for_each (copy_back_elem h v) (rev [0..<n]) (c, st) = Done (c\<lparr>outputs := new\<rparr>, [])
           \<and> length new = length (outputs c)
           \<and> (\<forall>j<n. new ! (v ! j) = cells h (st ! j))
           \<and> (\<forall>s. s \<notin> set (take n v) \<longrightarrow> new ! s = outputs c ! s)"
  using assms
proof (induction n arbitrary: c st)
  case 0
  then show ?case by (auto intro!: exI [of _ "outputs c"])
next
  case (Suc n)
  let ?x = "cells h (last st)"
  let ?c1 = "assign_output c (v ! n) ?x"
  from Suc.prems have st: "st \<noteq> []" by auto
  then have step: "copy_back_elem h v n (c, st) = Done (?c1, butlast st)"
    by (simp add: copy_back_elem_def)
  from Suc.prems have p: "n \<le> length v" "length (butlast st) = n" "distinct v"
    "\<forall>s\<in>set v. s < length (outputs ?c1)"
    by (simp_all add: assign_output_def)
  from Suc.IH [OF p] obtain new where
    run: "for_each (copy_back_elem h v) (rev [0..<n]) (?c1, butlast st)
            = Done (?c1\<lparr>outputs := new\<rparr>, [])"
    and len: "length new = length (outputs ?c1)"
    and hit: "\<forall>j<n. new ! (v ! j) = cells h (butlast st ! j)"
    and miss: "\<forall>s. s \<notin> set (take n v) \<longrightarrow> new ! s = outputs ?c1 ! s"
    by blast
  have c1: "?c1\<lparr>outputs := new\<rparr> = c\<lparr>outputs := new\<rparr>" by (simp add: assign_output_def)
  from Suc.prems have nv: "n < length v" by simp
  then have "v ! n \<in> set v" by simp
  with Suc.prems(4) have vout: "v ! n < length (outputs c)" by blast
  from Suc.prems(3) nv have "v ! n \<notin> set (take n v)"
    by (auto simp: in_set_conv_nth distinct_conv_nth)
  note vn = this vout nv
  have last: "new ! (v ! n) = cells h (st ! n)"
    using miss vn Suc.prems(2) st by (simp add: assign_output_def last_conv_nth)
  have hit': "new ! (v ! j) = cells h (st ! j)" if "j < Suc n" for j
  proof (cases "j = n")
    case True
    with last show ?thesis by simp
  next
    case False
    with that have "j < n" by simp
    with hit Suc.prems(2) show ?thesis by (simp add: nth_butlast)
  qed
  have miss': "new ! s = outputs c ! s" if "s \<notin> set (take (Suc n) v)" for s
  proof -
    from that vn(3) have "s \<notin> set (take n v)" "s \<noteq> v ! n"
      by (auto simp: take_Suc_conv_app_nth)
    with miss show ?thesis by (simp add: assign_output_def)
  qed
  from step run c1 have "for_each (copy_back_elem h v) (rev [0..<Suc n]) (c, st)
                           = Done (c\<lparr>outputs := new\<rparr>, [])"
    by simp
  with len hit' miss' show ?case
    by (auto simp: assign_output_def intro!: exI [of _ new])
qed

lemma fold_assign:
  assumes "n \<le> length v" "distinct v" "\<forall>s\<in>set v. s < length (outputs c)"
  shows "\<exists>new. fold (\<lambda>idx c. assign_output c (v ! idx) (cells h (ps ! idx))) [0..<n] c
                  = c\<lparr>outputs := new\<rparr>
           \<and> length new = length (outputs c)
           \<and> (\<forall>j<n. new ! (v ! j) = cells h (ps ! j))
           \<and> (\<forall>s. s \<notin> set (take n v) \<longrightarrow> new ! s = outputs c ! s)"
  using assms
proof (induction n)
  case 0
  then show ?case by (auto intro!: exI [of _ "outputs c"])
next
  case (Suc n)
  then obtain old where
    run: "fold (\<lambda>idx c. assign_output c (v ! idx) (cells h (ps ! idx))) [0..<n] c
            = c\<lparr>outputs := old\<rparr>"
    and len: "length old = length (outputs c)"
    and hit: "\<forall>j<n. old ! (v ! j) = cells h (ps ! j)"
    and miss: "\<forall>s. s \<notin> set (take n v) \<longrightarrow> old ! s = outputs c ! s"
    by auto
  let ?new = "old[v ! n := cells h (ps ! n)]"
  from Suc.prems have nv: "n < length v" by simp
  then have "v ! n \<in> set v" by simp
  with Suc.prems(3) have vout: "v ! n < length (outputs c)" by blast
  from Suc.prems(2) nv have "\<forall>j<n. v ! j \<noteq> v ! n"
    by (auto simp: distinct_conv_nth)
  note vn = nv vout this
  have "fold (\<lambda>idx c. assign_output c (v ! idx) (cells h (ps ! idx))) [0..<Suc n] c
          = c\<lparr>outputs := ?new\<rparr>"
    using run by (simp add: assign_output_def)
  moreover have "length ?new = length (outputs c)" using len by simp
  moreover have "\<forall>j<Suc n. ?new ! (v ! j) = cells h (ps ! j)"
    using hit vn len by (auto simp: less_Suc_eq nth_list_update)
  moreover have "\<forall>s. s \<notin> set (take (Suc n) v) \<longrightarrow> ?new ! s = outputs c ! s"
    using miss vn(1) by (auto simp: take_Suc_conv_app_nth nth_list_update)
  ultimately show ?case by blast
qed

lemma out_slots_distinct: "distinct (out_slots info c i)"
  by (simp add: out_slots_def)

lemma out_slots_outputs [simp]: "out_slots info (c\<lparr>outputs := x\<rparr>) i = out_slots info c i"
  by (simp add: out_slots_def)

lemma MutableOutputBetween_Some:
  "\<forall>s\<in>set [a..<b]. s < length (outputs c) \<Longrightarrow> MutableOutputBetween c a b = Some [a..<b]"
  by (simp add: MutableOutputBetween_def list_all_iff)

lemma map_nth_eq:
  assumes "length v = length st" and "\<forall>j<length v. new ! (v ! j) = f (st ! j)"
  shows "map (\<lambda>s. new ! s) v = map f st"
  using assms by (simp add: list_eq_iff_nth_eq)

lemma map_back_step_Done:
  assumes i: "i < length (output_range (ctx fr))"
      and inb: "\<forall>s\<in>set (out_slots info (ctx fr) i). s < length (outputs (ctx fr))"
      and sc: "\<not> is_vector (output_defs info ! i) \<longrightarrow> custom_outs_ptr fr \<noteq> []"
      and vc: "is_vector (output_defs info ! i) \<longrightarrow>
                 custom_vec_outs_ptr fr \<noteq> []
                 \<and> length (last (custom_vec_outs_ptr fr)) = length (out_slots info (ctx fr) i)"
  shows "\<exists>fr' new. map_back_step info i fr = Done fr'
          \<and> ctx fr' = (ctx fr)\<lparr>outputs := new\<rparr> \<and> mem fr' = mem fr
          \<and> custom_outs_ptr fr' =
              (if is_vector (output_defs info ! i) then custom_outs_ptr fr
               else butlast (custom_outs_ptr fr))
          \<and> custom_vec_outs_ptr fr' =
              (if is_vector (output_defs info ! i) then butlast (custom_vec_outs_ptr fr)
               else custom_vec_outs_ptr fr)
          \<and> length new = length (outputs (ctx fr))
          \<and> map (\<lambda>s. new ! s) (out_slots info (ctx fr) i) =
              map (cells (mem fr))
                (if is_vector (output_defs info ! i) then last (custom_vec_outs_ptr fr)
                 else [last (custom_outs_ptr fr)])
          \<and> (\<forall>s. s \<notin> set (out_slots info (ctx fr) i) \<longrightarrow> new ! s = outputs (ctx fr) ! s)"
proof (cases "is_vector (output_defs info ! i)")
  case False
  let ?a = "fst (output_range (ctx fr) ! i)"
  let ?new = "(outputs (ctx fr))[?a := cells (mem fr) (last (custom_outs_ptr fr))]"
  from False inb have a: "?a < length (outputs (ctx fr))" by (simp add: out_slots_def)
  from False sc have ne: "custom_outs_ptr fr \<noteq> []" by simp
  have "map_back_step info i fr =
          Done (fr\<lparr>ctx := (ctx fr)\<lparr>outputs := ?new\<rparr>,
                   custom_outs_ptr := butlast (custom_outs_ptr fr)\<rparr>)"
    using i a ne False
    by (simp add: map_back_step_def OutputRangeAt_def MutableOutputAt_def assign_output_def)
  with a False show ?thesis
    by (auto simp: out_slots_def intro!: exI [of _ ?new])
next
  case True
  let ?a = "fst (output_range (ctx fr) ! i)"
  let ?b = "snd (output_range (ctx fr) ! i)"
  let ?v = "[?a..<?b]"
  let ?st = "last (custom_vec_outs_ptr fr)"
  from True have v: "out_slots info (ctx fr) i = ?v" by (simp add: out_slots_def)
  from True vc v have ne: "custom_vec_outs_ptr fr \<noteq> []" and len: "length ?st = length ?v"
    by simp_all
  from inb v have inb': "\<forall>s\<in>set ?v. s < length (outputs (ctx fr))" by simp
  from copy_back_loop [of "length ?v" ?v ?st "ctx fr" "mem fr"] len inb'
  obtain new where
    run: "for_each (copy_back_elem (mem fr) ?v) (rev [0..<length ?v]) (ctx fr, ?st)
            = Done ((ctx fr)\<lparr>outputs := new\<rparr>, [])"
    and ln: "length new = length (outputs (ctx fr))"
    and hit: "\<forall>j<length ?v. new ! (?v ! j) = cells (mem fr) (?st ! j)"
    and miss: "\<forall>s. s \<notin> set (take (length ?v) ?v) \<longrightarrow> new ! s = outputs (ctx fr) ! s"
    by auto
  have "map_back_step info i fr =
          Done (fr\<lparr>ctx := (ctx fr)\<lparr>outputs := new\<rparr>,
                   custom_vec_outs_ptr := butlast (custom_vec_outs_ptr fr)\<rparr>)"
    using i ne True run MutableOutputBetween_Some [OF inb']
    by (simp add: map_back_step_def OutputRangeAt_def)
  moreover have "map (\<lambda>s. new ! s) ?v = map (cells (mem fr)) ?st"
    using len hit by (intro map_nth_eq) simp_all
  ultimately show ?thesis
    using True v ln miss by (auto intro!: exI [of _ new])
qed

lemma map_back_forward_step_Done:
  assumes i: "i < length (output_range (ctx fr))"
      and inb: "\<forall>s\<in>set (out_slots info (ctx fr) i). s < length (outputs (ctx fr))"
      and sc: "\<not> is_vector (output_defs info ! i) \<longrightarrow>
                 scalar_pos (output_defs info) i < length (custom_outs_ptr fr)"
      and vc: "is_vector (output_defs info ! i) \<longrightarrow>
                 vector_pos (output_defs info) i < length (custom_vec_outs_ptr fr)
                 \<and> length (custom_vec_outs_ptr fr ! vector_pos (output_defs info) i)
                     = length (out_slots info (ctx fr) i)"
  shows "\<exists>fr' new. map_back_forward_step info i fr = Done fr'
          \<and> ctx fr' = (ctx fr)\<lparr>outputs := new\<rparr> \<and> mem fr' = mem fr
          \<and> custom_outs_ptr fr' = custom_outs_ptr fr
          \<and> custom_vec_outs_ptr fr' = custom_vec_outs_ptr fr
          \<and> length new = length (outputs (ctx fr))
          \<and> map (\<lambda>s. new ! s) (out_slots info (ctx fr) i) =
              map (cells (mem fr)) (retained info fr i)
          \<and> (\<forall>s. s \<notin> set (out_slots info (ctx fr) i) \<longrightarrow> new ! s = outputs (ctx fr) ! s)"
proof (cases "is_vector (output_defs info ! i)")
  case False
  let ?a = "fst (output_range (ctx fr) ! i)"
  let ?p = "custom_outs_ptr fr ! scalar_pos (output_defs info) i"
  let ?new = "(outputs (ctx fr))[?a := cells (mem fr) ?p]"
  from False inb have a: "?a < length (outputs (ctx fr))" by (simp add: out_slots_def)
  have "map_back_forward_step info i fr = Done (fr\<lparr>ctx := (ctx fr)\<lparr>outputs := ?new\<rparr>\<rparr>)"
    using i a sc False
    by (simp add: map_back_forward_step_def OutputRangeAt_def MutableOutputAt_def
          assign_output_def)
  with a False show ?thesis
    by (auto simp: out_slots_def retained_def intro!: exI [of _ ?new])
next
  case True
  let ?a = "fst (output_range (ctx fr) ! i)"
  let ?b = "snd (output_range (ctx fr) ! i)"
  let ?v = "[?a..<?b]"
  let ?ps = "custom_vec_outs_ptr fr ! vector_pos (output_defs info) i"
  from True have v: "out_slots info (ctx fr) i = ?v" by (simp add: out_slots_def)
  from True vc v have pos: "vector_pos (output_defs info) i < length (custom_vec_outs_ptr fr)"
    and len: "length ?ps = length ?v" by simp_all
  from inb v have inb': "\<forall>s\<in>set ?v. s < length (outputs (ctx fr))" by simp
  from fold_assign [of "length ?v" ?v "ctx fr" "mem fr" ?ps] inb'
  obtain new where
    run: "fold (\<lambda>idx c. assign_output c (?v ! idx) (cells (mem fr) (?ps ! idx)))
            [0..<length ?v] (ctx fr) = (ctx fr)\<lparr>outputs := new\<rparr>"
    and ln: "length new = length (outputs (ctx fr))"
    and hit: "\<forall>j<length ?v. new ! (?v ! j) = cells (mem fr) (?ps ! j)"
    and miss: "\<forall>s. s \<notin> set (take (length ?v) ?v) \<longrightarrow> new ! s = outputs (ctx fr) ! s"
    by auto
  have "map_back_forward_step info i fr = Done (fr\<lparr>ctx := (ctx fr)\<lparr>outputs := new\<rparr>\<rparr>)"
    using i pos len True run MutableOutputBetween_Some [OF inb']
    by (simp add: map_back_forward_step_def OutputRangeAt_def)
  moreover have "map (\<lambda>s. new ! s) ?v = map (cells (mem fr)) ?ps"
    using len hit by (intro map_nth_eq) simp_all
  ultimately show ?thesis
    using True v ln miss by (auto simp: retained_def intro!: exI [of _ new])
qed

lemma retained_cong:
  assumes "i < k" "k \<le> length (output_defs info)"
      and "length (custom_outs_ptr fr1) = scalar_pos (output_defs info) k"
      and "length (custom_vec_outs_ptr fr1) = vector_pos (output_defs info) k"
      and "custom_outs_ptr fr1 = custom_outs_ptr fr \<or> custom_outs_ptr fr1 = butlast (custom_outs_ptr fr)"
      and "custom_vec_outs_ptr fr1 = custom_vec_outs_ptr fr
           \<or> custom_vec_outs_ptr fr1 = butlast (custom_vec_outs_ptr fr)"
  shows "retained info fr1 i = retained info fr i"
proof (cases "is_vector (output_defs info ! i)")
  case True
  from vector_pos_less [OF assms(1,2) True] assms(4)
  have "vector_pos (output_defs info) i < length (custom_vec_outs_ptr fr1)" by simp
  with assms(6) have "custom_vec_outs_ptr fr1 ! vector_pos (output_defs info) i
                       = custom_vec_outs_ptr fr ! vector_pos (output_defs info) i"
    by (auto simp: nth_butlast)
  with True show ?thesis by (simp add: retained_def)
next
  case False
  from scalar_pos_less [OF assms(1,2) False] assms(3)
  have "scalar_pos (output_defs info) i < length (custom_outs_ptr fr1)" by simp
  with assms(5) have "custom_outs_ptr fr1 ! scalar_pos (output_defs info) i
                       = custom_outs_ptr fr ! scalar_pos (output_defs info) i"
    by (auto simp: nth_butlast)
  with False show ?thesis by (simp add: retained_def)
qed

lemma map_nth_agree:
  "\<forall>s\<in>set v. new ! s = old ! s \<Longrightarrow> map (\<lambda>s. new ! s) v = map (\<lambda>s. old ! s) v"
  by simp

lemma map_back_loop:
  assumes "stacks_fit info fr k"
  shows "\<exists>fr' new. for_each (map_back_step info) (rev [0..<k]) fr = Done fr'
           \<and> ctx fr' = (ctx fr)\<lparr>outputs := new\<rparr>
           \<and> written_back_rev info fr k (outputs (ctx fr)) new"
  using assms
proof (induction k arbitrary: fr)
  case 0
  then show ?case
    by (auto simp: written_back_rev_def intro!: exI [of _ "outputs (ctx fr)"])
next
  case (Suc k)
  let ?D = "output_defs info"
  from Suc.prems have k: "k < length ?D" "Suc k \<le> length ?D"
    and lp: "length (custom_outs_ptr fr) = scalar_pos ?D (Suc k)"
    and lv: "length (custom_vec_outs_ptr fr) = vector_pos ?D (Suc k)"
    and each: "\<forall>i<Suc k. i < length (output_range (ctx fr))
              \<and> (\<forall>s\<in>set (out_slots info (ctx fr) i). s < length (outputs (ctx fr)))
              \<and> (is_vector (?D ! i) \<longrightarrow>
                   length (custom_vec_outs_ptr fr ! vector_pos ?D i)
                     = length (out_slots info (ctx fr) i))"
    by (simp_all add: stacks_fit_def)
  have each_range: "i < length (output_range (ctx fr))" if "i < Suc k" for i
    using each that by blast
  have each_inb: "\<forall>s\<in>set (out_slots info (ctx fr) i). s < length (outputs (ctx fr))"
    if "i < Suc k" for i
    using each that by blast
  have each_len: "length (custom_vec_outs_ptr fr ! vector_pos ?D i)
                     = length (out_slots info (ctx fr) i)"
    if "i < Suc k" "is_vector (?D ! i)" for i
    using each that by blast
  from lp k(1) have sc: "\<not> is_vector (?D ! k) \<longrightarrow> custom_outs_ptr fr \<noteq> []"
    by (auto simp: scalar_pos_Suc)
  from lv k(1) have vne: "is_vector (?D ! k) \<longrightarrow> custom_vec_outs_ptr fr \<noteq> []"
    by (auto simp: vector_pos_Suc)
  have lastv: "last (custom_vec_outs_ptr fr) = custom_vec_outs_ptr fr ! vector_pos ?D k"
    if "is_vector (?D ! k)"
    using that lv k(1) vne by (simp add: last_conv_nth vector_pos_Suc)
  have lastp: "last (custom_outs_ptr fr) = custom_outs_ptr fr ! scalar_pos ?D k"
    if "\<not> is_vector (?D ! k)"
    using that lp k(1) sc by (simp add: last_conv_nth scalar_pos_Suc)
  from each_len [of k] lastv vne
  have vc: "is_vector (?D ! k) \<longrightarrow> custom_vec_outs_ptr fr \<noteq> []
              \<and> length (last (custom_vec_outs_ptr fr)) = length (out_slots info (ctx fr) k)"
    by simp
  have ik: "k < length (output_range (ctx fr))"
    and inb: "\<forall>s\<in>set (out_slots info (ctx fr) k). s < length (outputs (ctx fr))"
    using each_range [of k] each_inb [of k] by simp_all
  from map_back_step_Done [OF ik inb sc vc] obtain fr1 new1 where
    step: "map_back_step info k fr = Done fr1"
    and c1: "ctx fr1 = (ctx fr)\<lparr>outputs := new1\<rparr>" and m1: "mem fr1 = mem fr"
    and p1: "custom_outs_ptr fr1 =
              (if is_vector (?D ! k) then custom_outs_ptr fr else butlast (custom_outs_ptr fr))"
    and v1: "custom_vec_outs_ptr fr1 =
              (if is_vector (?D ! k) then butlast (custom_vec_outs_ptr fr)
               else custom_vec_outs_ptr fr)"
    and l1: "length new1 = length (outputs (ctx fr))"
    and hit1: "map (\<lambda>s. new1 ! s) (out_slots info (ctx fr) k) =
              map (cells (mem fr))
                (if is_vector (?D ! k) then last (custom_vec_outs_ptr fr)
                 else [last (custom_outs_ptr fr)])"
    and miss1: "\<forall>s. s \<notin> set (out_slots info (ctx fr) k) \<longrightarrow> new1 ! s = outputs (ctx fr) ! s"
    by blast
  have lp1: "length (custom_outs_ptr fr1) = scalar_pos ?D k"
    using p1 lp k(1) by (simp add: scalar_pos_Suc)
  have lv1: "length (custom_vec_outs_ptr fr1) = vector_pos ?D k"
    using v1 lv k(1) by (simp add: vector_pos_Suc)
  have p1': "custom_outs_ptr fr1 = custom_outs_ptr fr
             \<or> custom_outs_ptr fr1 = butlast (custom_outs_ptr fr)"
    using p1 by simp
  have v1': "custom_vec_outs_ptr fr1 = custom_vec_outs_ptr fr
             \<or> custom_vec_outs_ptr fr1 = butlast (custom_vec_outs_ptr fr)"
    using v1 by simp
  have ret: "retained info fr1 i = retained info fr i" if "i < k" for i
    using that k(1) lp1 lv1 p1' v1' by (intro retained_cong [of i k]) simp_all
  have slots1: "out_slots info (ctx fr1) i = out_slots info (ctx fr) i" for i
    by (simp add: c1)
  have fit1: "stacks_fit info fr1 k"
    unfolding stacks_fit_def
  proof (intro conjI allI impI)
    show "k \<le> length ?D" using k by simp
    show "length (custom_outs_ptr fr1) = scalar_pos ?D k" by (rule lp1)
    show "length (custom_vec_outs_ptr fr1) = vector_pos ?D k" by (rule lv1)
  next
    fix i assume i: "i < k"
    with each_range [of i] show "i < length (output_range (ctx fr1))" by (simp add: c1)
    from i each_inb [of i] l1
    show "\<forall>s\<in>set (out_slots info (ctx fr1) i). s < length (outputs (ctx fr1))"
      by (simp add: c1)
    assume vi: "is_vector (?D ! i)"
    from ret [OF i] vi have "custom_vec_outs_ptr fr1 ! vector_pos ?D i
                              = custom_vec_outs_ptr fr ! vector_pos ?D i"
      by (simp add: retained_def)
    with i each_len [of i] vi show "length (custom_vec_outs_ptr fr1 ! vector_pos ?D i)
                          = length (out_slots info (ctx fr1) i)"
      by (simp add: slots1)
  qed
  from Suc.IH [OF fit1] obtain fr' new where
    run: "for_each (map_back_step info) (rev [0..<k]) fr1 = Done fr'"
    and c': "ctx fr' = (ctx fr1)\<lparr>outputs := new\<rparr>"
    and wb: "written_back_rev info fr1 k (outputs (ctx fr1)) new"
    by blast
  from wb have ln: "length new = length new1"
    and hit: "\<forall>i<k. (\<forall>j<i. set (out_slots info (ctx fr) j)
                            \<inter> set (out_slots info (ctx fr) i) = {})
                \<longrightarrow> map (\<lambda>s. new ! s) (out_slots info (ctx fr) i)
                      = map (cells (mem fr)) (retained info fr i)"
    and miss: "\<forall>s. (\<forall>i<k. s \<notin> set (out_slots info (ctx fr) i)) \<longrightarrow> new ! s = new1 ! s"
    by (simp_all add: written_back_rev_def slots1 c1 m1 ret)
  have retk: "(if is_vector (?D ! k) then last (custom_vec_outs_ptr fr)
                 else [last (custom_outs_ptr fr)]) = retained info fr k"
    using lastv lastp by (simp add: retained_def)
  have hitk: "map (\<lambda>s. new ! s) (out_slots info (ctx fr) k)
                = map (cells (mem fr)) (retained info fr k)"
    if first: "\<forall>j<k. set (out_slots info (ctx fr) j) \<inter> set (out_slots info (ctx fr) k) = {}"
  proof -
    have "\<forall>s\<in>set (out_slots info (ctx fr) k). new ! s = new1 ! s"
    proof
      fix s assume s: "s \<in> set (out_slots info (ctx fr) k)"
      have "\<forall>i<k. s \<notin> set (out_slots info (ctx fr) i)"
      proof (intro allI impI)
        fix i assume "i < k"
        with first have "set (out_slots info (ctx fr) i)
                                 \<inter> set (out_slots info (ctx fr) k) = {}"
          by simp
        with s show "s \<notin> set (out_slots info (ctx fr) i)" by blast
      qed
      with miss show "new ! s = new1 ! s" by simp
    qed
    then have "map (\<lambda>s. new ! s) (out_slots info (ctx fr) k)
                 = map (\<lambda>s. new1 ! s) (out_slots info (ctx fr) k)"
      by (rule map_nth_agree)
    with hit1 retk show ?thesis by simp
  qed
  have wb': "written_back_rev info fr (Suc k) (outputs (ctx fr)) new"
    unfolding written_back_rev_def
  proof (intro conjI allI impI)
    show "length new = length (outputs (ctx fr))" using ln l1 by simp
  next
    fix i
    assume i: "i < Suc k"
      and first: "\<forall>j<i. set (out_slots info (ctx fr) j) \<inter> set (out_slots info (ctx fr) i) = {}"
    show "map (\<lambda>s. new ! s) (out_slots info (ctx fr) i)
                 = map (cells (mem fr)) (retained info fr i)"
    proof (cases "i = k")
      case True
      with first hitk show ?thesis by simp
    next
      case False
      with i have "i < k" by simp
      with hit first show ?thesis by blast
    qed
  next
    fix s assume a: "\<forall>i<Suc k. s \<notin> set (out_slots info (ctx fr) i)"
    then have "new ! s = new1 ! s" using miss by simp
    moreover from a have "new1 ! s = outputs (ctx fr) ! s" using miss1 by simp
    ultimately show "new ! s = outputs (ctx fr) ! s" by simp
  qed
  from step run have "for_each (map_back_step info) (rev [0..<Suc k]) fr = Done fr'"
    by simp
  moreover from c' c1 have "ctx fr' = (ctx fr)\<lparr>outputs := new\<rparr>" by simp
  ultimately show ?case using wb' by blast
qed

lemma written_back_rev_independent:
  assumes "written_back_rev info fr k old new" and "independent_upto info (ctx fr) k"
  shows "written_back info fr k old new"
  unfolding written_back_def
proof (intro conjI allI impI)
  from assms(1) show "length new = length old" by (simp add: written_back_rev_def)
next
  fix i assume i: "i < k"
  with assms(2) have "\<forall>j<i. set (out_slots info (ctx fr) j) \<inter> set (out_slots info (ctx fr) i) = {}"
    by (simp add: independent_upto_def)
  with assms(1) i show "map (\<lambda>s. new ! s) (out_slots info (ctx fr) i)
                          = map (cells (mem fr)) (retained info fr i)"
    by (simp add: written_back_rev_def)
next
  fix s assume "\<forall>i<k. s \<notin> set (out_slots info (ctx fr) i)"
  with assms(1) show "new ! s = old ! s" by (simp add: written_back_rev_def)
qed

lemma retained_same:
  "custom_outs_ptr fr1 = custom_outs_ptr fr \<Longrightarrow>
   custom_vec_outs_ptr fr1 = custom_vec_outs_ptr fr \<Longrightarrow>
   retained info fr1 i = retained info fr i"
  by (simp add: retained_def)

lemma map_back_forward_loop:
  assumes "stacks_fit info fr n" and "independent_upto info (ctx fr) n" and "k \<le> n"
  shows "\<exists>fr' new. for_each (map_back_forward_step info) [0..<k] fr = Done fr'
           \<and> ctx fr' = (ctx fr)\<lparr>outputs := new\<rparr> \<and> mem fr' = mem fr
           \<and> custom_outs_ptr fr' = custom_outs_ptr fr
           \<and> custom_vec_outs_ptr fr' = custom_vec_outs_ptr fr
           \<and> written_back info fr k (outputs (ctx fr)) new"
  using assms(3)
proof (induction k)
  case 0
  then show ?case
    by (auto simp: written_back_def intro!: exI [of _ "outputs (ctx fr)"])
next
  case (Suc k)
  let ?D = "output_defs info"
  from Suc.prems have kn: "k < n" "k \<le> n" by simp_all
  from assms(1) have n: "n \<le> length ?D"
    and lp: "length (custom_outs_ptr fr) = scalar_pos ?D n"
    and lv: "length (custom_vec_outs_ptr fr) = vector_pos ?D n"
    and each: "\<forall>i<n. i < length (output_range (ctx fr))
              \<and> (\<forall>s\<in>set (out_slots info (ctx fr) i). s < length (outputs (ctx fr)))
              \<and> (is_vector (?D ! i) \<longrightarrow>
                   length (custom_vec_outs_ptr fr ! vector_pos ?D i)
                     = length (out_slots info (ctx fr) i))"
    by (simp_all add: stacks_fit_def)
  from Suc.IH [OF kn(2)] obtain fr1 new1 where
    run: "for_each (map_back_forward_step info) [0..<k] fr = Done fr1"
    and c1: "ctx fr1 = (ctx fr)\<lparr>outputs := new1\<rparr>" and m1: "mem fr1 = mem fr"
    and p1: "custom_outs_ptr fr1 = custom_outs_ptr fr"
    and v1: "custom_vec_outs_ptr fr1 = custom_vec_outs_ptr fr"
    and wb: "written_back info fr k (outputs (ctx fr)) new1"
    by blast
  from wb have l1: "length new1 = length (outputs (ctx fr))"
    and hit1: "\<forall>i<k. map (\<lambda>s. new1 ! s) (out_slots info (ctx fr) i)
                  = map (cells (mem fr)) (retained info fr i)"
    and miss1: "\<forall>s. (\<forall>i<k. s \<notin> set (out_slots info (ctx fr) i)) \<longrightarrow>
                  new1 ! s = outputs (ctx fr) ! s"
    by (simp_all add: written_back_def)
  have ik: "k < length (output_range (ctx fr1))"
    using each kn(1) by (simp add: c1)
  have inb: "\<forall>s\<in>set (out_slots info (ctx fr1) k). s < length (outputs (ctx fr1))"
    using each kn(1) l1 by (simp add: c1)
  have sc: "\<not> is_vector (?D ! k) \<longrightarrow> scalar_pos ?D k < length (custom_outs_ptr fr1)"
    using scalar_pos_less [OF kn(1) n] lp p1 by simp
  have vc: "is_vector (?D ! k) \<longrightarrow>
              vector_pos ?D k < length (custom_vec_outs_ptr fr1)
              \<and> length (custom_vec_outs_ptr fr1 ! vector_pos ?D k)
                  = length (out_slots info (ctx fr1) k)"
    using vector_pos_less [OF kn(1) n] lv v1 each kn(1) by (simp add: c1)
  from map_back_forward_step_Done [OF ik inb sc vc] obtain fr' new where
    step: "map_back_forward_step info k fr1 = Done fr'"
    and c': "ctx fr' = (ctx fr1)\<lparr>outputs := new\<rparr>" and m': "mem fr' = mem fr1"
    and p': "custom_outs_ptr fr' = custom_outs_ptr fr1"
    and v': "custom_vec_outs_ptr fr' = custom_vec_outs_ptr fr1"
    and ln: "length new = length (outputs (ctx fr1))"
    and hitk: "map (\<lambda>s. new ! s) (out_slots info (ctx fr1) k) =
              map (cells (mem fr1)) (retained info fr1 k)"
    and miss: "\<forall>s. s \<notin> set (out_slots info (ctx fr1) k) \<longrightarrow> new ! s = outputs (ctx fr1) ! s"
    by blast
  have retk: "retained info fr1 k = retained info fr k"
    using p1 v1 by (rule retained_same)
  have hit: "map (\<lambda>s. new ! s) (out_slots info (ctx fr) i)
               = map (cells (mem fr)) (retained info fr i)" if "i < k" for i
  proof -
    have "\<forall>s\<in>set (out_slots info (ctx fr) i). new ! s = new1 ! s"
    proof
      fix s assume s: "s \<in> set (out_slots info (ctx fr) i)"
      from assms(2) that kn(1) have "set (out_slots info (ctx fr) i)
                                 \<inter> set (out_slots info (ctx fr) k) = {}"
        by (simp add: independent_upto_def)
      with s have "s \<notin> set (out_slots info (ctx fr1) k)" by (auto simp: c1)
      with miss show "new ! s = new1 ! s" by (simp add: c1)
    qed
    then have "map (\<lambda>s. new ! s) (out_slots info (ctx fr) i)
                 = map (\<lambda>s. new1 ! s) (out_slots info (ctx fr) i)"
      by (rule map_nth_agree)
    with hit1 that show ?thesis by simp
  qed
  have wb': "written_back info fr (Suc k) (outputs (ctx fr)) new"
    unfolding written_back_def
  proof (intro conjI allI impI)
    show "length new = length (outputs (ctx fr))" using ln l1 by (simp add: c1)
  next
    fix i assume "i < Suc k"
    then show "map (\<lambda>s. new ! s) (out_slots info (ctx fr) i)
                 = map (cells (mem fr)) (retained info fr i)"
      using hit hitk retk by (cases "i = k") (simp_all add: c1 m1)
  next
    fix s assume a: "\<forall>i<Suc k. s \<notin> set (out_slots info (ctx fr) i)"
    then have "new ! s = new1 ! s" using miss by (simp add: c1)
    moreover from a have "new1 ! s = outputs (ctx fr) ! s" using miss1 by simp
    ultimately show "new ! s = outputs (ctx fr) ! s" by simp
  qed
  from run step have "for_each (map_back_forward_step info) [0..<Suc k] fr = Done fr'"
    by (simp add: for_each_append)
  moreover from c' c1 have "ctx fr' = (ctx fr)\<lparr>outputs := new\<rparr>" by simp
  ultimately show ?case using wb' m' m1 p' p1 v' v1 by auto
qed

text \<open>Two write-backs of the same kept pointers leave the same output slots.\<close>

lemma written_back_unique:
  assumes "written_back info fr k old new1" and "written_back info fr k old new2"
  shows "new1 = new2"
proof (rule nth_equalityI)
  from assms show "length new1 = length new2" by (simp add: written_back_def)
next
  fix s assume "s < length new1"
  show "new1 ! s = new2 ! s"
  proof (cases "\<exists>i<k. s \<in> set (out_slots info (ctx fr) i)")
    case True
    then obtain i where i: "i < k" "s \<in> set (out_slots info (ctx fr) i)" by blast
    from assms i(1) have "map (\<lambda>s. new1 ! s) (out_slots info (ctx fr) i)
                           = map (\<lambda>s. new2 ! s) (out_slots info (ctx fr) i)"
      by (simp add: written_back_def)
    with i(2) show ?thesis by simp
  next
    case False
    with assms show ?thesis by (simp add: written_back_def)
  qed
qed

lemma wrap_outputs_fold:
  "fold (\<lambda>ctx_tensor (custom_vec_out, custom_vec_out_ptr, h).
           case make_shared (outputs c ! ctx_tensor) h of
             (p, h') \<Rightarrow> (custom_vec_out @ [Tensor p], custom_vec_out_ptr @ [p], h'))
        v (hs0, ps0, h0) = (hs, ps, h1) \<Longrightarrow>
   length ps = length ps0 + length v \<and> (map impl hs0 = ps0 \<longrightarrow> map impl hs = ps)"
proof (induction v arbitrary: hs0 ps0 h0)
  case Nil
  then show ?case by simp
next
  case (Cons a v)
  from Cons.prems Cons.IH [of "hs0 @ [Tensor (next_addr h0)]" "ps0 @ [next_addr h0]"]
  show ?case by (auto simp: make_shared_def)
qed

lemma wrap_outputs_result:
  "wrap_outputs c v h = (hs, ps, h1) \<Longrightarrow> length ps = length v \<and> map impl hs = ps"
  unfolding wrap_outputs_def by (drule wrap_outputs_fold) simp

lemma outputs_step_Done:
  assumes "outputs_step info i fr = Done fr'"
  shows "ctx fr' = ctx fr"
    and "i < length (output_range (ctx fr))"
    and "\<forall>s\<in>set (out_slots info (ctx fr) i). s < length (outputs (ctx fr))"
    and "\<not> is_vector (output_defs info ! i) \<Longrightarrow>
           (\<exists>p. custom_outs_ptr fr' = custom_outs_ptr fr @ [p]
                \<and> custom_outs fr' = custom_outs fr @ [Tensor p])
           \<and> custom_vec_outs_ptr fr' = custom_vec_outs_ptr fr
           \<and> custom_vec_outs fr' = custom_vec_outs fr"
    and "is_vector (output_defs info ! i) \<Longrightarrow>
           (\<exists>hs ps. custom_vec_outs_ptr fr' = custom_vec_outs_ptr fr @ [ps]
                \<and> custom_vec_outs fr' = custom_vec_outs fr @ [hs]
                \<and> map impl hs = ps \<and> length ps = length (out_slots info (ctx fr) i))
           \<and> custom_outs_ptr fr' = custom_outs_ptr fr
           \<and> custom_outs fr' = custom_outs fr"
proof -
  from assms obtain rng where rng: "OutputRangeAt (ctx fr) i = Some rng"
    by (auto simp: outputs_step_def split: option.splits)
  then have r: "rng = output_range (ctx fr) ! i" and i: "i < length (output_range (ctx fr))"
    by (auto simp: OutputRangeAt_def split: if_splits)
  show "i < length (output_range (ctx fr))" by (rule i)
  show "ctx fr' = ctx fr"
    using assms rng
    by (auto simp: outputs_step_def split: option.splits prod.splits if_splits)
  show "\<forall>s\<in>set (out_slots info (ctx fr) i). s < length (outputs (ctx fr))"
    using assms rng r
    by (auto simp: outputs_step_def out_slots_def MutableOutputAt_def
          MutableOutputBetween_def list_all_iff
          split: option.splits prod.splits if_splits)
  show "(\<exists>p. custom_outs_ptr fr' = custom_outs_ptr fr @ [p]
                \<and> custom_outs fr' = custom_outs fr @ [Tensor p])
           \<and> custom_vec_outs_ptr fr' = custom_vec_outs_ptr fr
           \<and> custom_vec_outs fr' = custom_vec_outs fr"
    if "\<not> is_vector (output_defs info ! i)"
    using assms rng that
    by (auto simp: outputs_step_def make_shared_def split: option.splits prod.splits)
  show "(\<exists>hs ps. custom_vec_outs_ptr fr' = custom_vec_outs_ptr fr @ [ps]
                \<and> custom_vec_outs fr' = custom_vec_outs fr @ [hs]
                \<and> map impl hs = ps \<and> length ps = length (out_slots info (ctx fr) i))
           \<and> custom_outs_ptr fr' = custom_outs_ptr fr
           \<and> custom_outs fr' = custom_outs fr"
    if "is_vector (output_defs info ! i)"
  proof -
    from assms rng that obtain v hs ps h1 where
      v: "MutableOutputBetween (ctx fr) (fst rng) (snd rng) = Some v"
      and w: "wrap_outputs (ctx fr) v (mem fr) = (hs, ps, h1)"
      and fr': "fr' = fr\<lparr>mem := h1, custom_vec_outs := custom_vec_outs fr @ [hs],
                         custom_vec_outs_ptr := custom_vec_outs_ptr fr @ [ps]\<rparr>"
      by (auto simp: outputs_step_def split: option.splits prod.splits)
    from v r that have "v = out_slots info (ctx fr) i"
      by (auto simp: MutableOutputBetween_def out_slots_def split: if_splits)
    with wrap_outputs_result [OF w] fr' show ?thesis by simp
  qed
qed

lemma outputs_loop:
  assumes "for_each (outputs_step info) [0..<k] fr = Done fr'"
      and "k \<le> length (output_defs info)"
      and "custom_outs_ptr fr = []" "custom_vec_outs_ptr fr = []"
      and "custom_outs fr = []" "custom_vec_outs fr = []"
  shows "stacks_fit info fr' k \<and> ctx fr' = ctx fr
         \<and> map impl (custom_outs fr') = custom_outs_ptr fr'
         \<and> map (map impl) (custom_vec_outs fr') = custom_vec_outs_ptr fr'"
  using assms(1,2)
proof (induction k arbitrary: fr')
  case 0
  with assms(3-6) show ?case
    by (simp add: stacks_fit_def scalar_pos_def vector_pos_def)
next
  case (Suc k)
  let ?D = "output_defs info"
  from Suc.prems(1) obtain fr1 where
    pre: "for_each (outputs_step info) [0..<k] fr = Done fr1"
    and step: "outputs_step info k fr1 = Done fr'"
    by (auto simp: for_each_snoc_Done)
  from Suc.prems(2) have k: "k < length ?D" "k \<le> length ?D" by simp_all
  from Suc.IH [OF pre k(2)] have fit1: "stacks_fit info fr1 k" and c1: "ctx fr1 = ctx fr"
    and h1: "map impl (custom_outs fr1) = custom_outs_ptr fr1"
    and hv1: "map (map impl) (custom_vec_outs fr1) = custom_vec_outs_ptr fr1"
    by simp_all
  from fit1 have lp1: "length (custom_outs_ptr fr1) = scalar_pos ?D k"
    and lv1: "length (custom_vec_outs_ptr fr1) = vector_pos ?D k"
    and each1: "\<forall>i<k. i < length (output_range (ctx fr1))
              \<and> (\<forall>s\<in>set (out_slots info (ctx fr1) i). s < length (outputs (ctx fr1)))
              \<and> (is_vector (?D ! i) \<longrightarrow>
                   length (custom_vec_outs_ptr fr1 ! vector_pos ?D i)
                     = length (out_slots info (ctx fr1) i))"
    by (simp_all add: stacks_fit_def)
  note st = outputs_step_Done [OF step]
  have c': "ctx fr' = ctx fr1" by (rule st(1))
  have e_range: "i < length (output_range (ctx fr'))" if "i < Suc k" for i
  proof (cases "i = k")
    case True
    with st(2) c' show ?thesis by simp
  next
    case False
    with that have "i < k" by simp
    with each1 c' show ?thesis by simp
  qed
  have e_inb: "\<forall>s\<in>set (out_slots info (ctx fr') i). s < length (outputs (ctx fr'))"
    if "i < Suc k" for i
  proof (cases "i = k")
    case True
    with st(3) c' show ?thesis by simp
  next
    case False
    with that have "i < k" by simp
    with each1 have "\<forall>s\<in>set (out_slots info (ctx fr1) i). s < length (outputs (ctx fr1))"
      by blast
    with c' show ?thesis by simp
  qed
  have e_len: "length (custom_vec_outs_ptr fr1 ! vector_pos ?D i)
                     = length (out_slots info (ctx fr1) i)"
    if "i < k" "is_vector (?D ! i)" for i
    using each1 that by blast
  show ?case
  proof (cases "is_vector (?D ! k)")
    case False
    from st(4) [OF False] obtain p where
      p: "custom_outs_ptr fr' = custom_outs_ptr fr1 @ [p]"
         "custom_outs fr' = custom_outs fr1 @ [Tensor p]"
         "custom_vec_outs_ptr fr' = custom_vec_outs_ptr fr1"
         "custom_vec_outs fr' = custom_vec_outs fr1"
      by blast
    have "stacks_fit info fr' (Suc k)"
      unfolding stacks_fit_def
    proof (intro conjI allI impI)
      show "Suc k \<le> length ?D" using k by simp
      show "length (custom_outs_ptr fr') = scalar_pos ?D (Suc k)"
        using p lp1 k False by (simp add: scalar_pos_Suc)
      show "length (custom_vec_outs_ptr fr') = vector_pos ?D (Suc k)"
        using p lv1 k False by (simp add: vector_pos_Suc)
    next
      fix i assume i: "i < Suc k"
      show "i < length (output_range (ctx fr'))" using i by (rule e_range)
      show "\<forall>s\<in>set (out_slots info (ctx fr') i). s < length (outputs (ctx fr'))"
        using i by (rule e_inb)
      assume vi: "is_vector (?D ! i)"
      with False i have "i < k" by (cases "i = k") auto
      from e_len [OF this vi] p c'
      show "length (custom_vec_outs_ptr fr' ! vector_pos ?D i)
              = length (out_slots info (ctx fr') i)"
        by simp
    qed
    with p h1 hv1 c' c1 show ?thesis by simp
  next
    case True
    from st(5) [OF True] obtain hs ps where
      p: "custom_vec_outs_ptr fr' = custom_vec_outs_ptr fr1 @ [ps]"
         "custom_vec_outs fr' = custom_vec_outs fr1 @ [hs]"
         "map impl hs = ps" "length ps = length (out_slots info (ctx fr1) k)"
         "custom_outs_ptr fr' = custom_outs_ptr fr1"
         "custom_outs fr' = custom_outs fr1"
      by blast
    have "stacks_fit info fr' (Suc k)"
      unfolding stacks_fit_def
    proof (intro conjI allI impI)
      show "Suc k \<le> length ?D" using k by simp
      show "length (custom_outs_ptr fr') = scalar_pos ?D (Suc k)"
        using p lp1 k True by (simp add: scalar_pos_Suc)
      show "length (custom_vec_outs_ptr fr') = vector_pos ?D (Suc k)"
        using p lv1 k True by (simp add: vector_pos_Suc)
    next
      fix i assume i: "i < Suc k"
      show "i < length (output_range (ctx fr'))" using i by (rule e_range)
      show "\<forall>s\<in>set (out_slots info (ctx fr') i). s < length (outputs (ctx fr'))"
        using i by (rule e_inb)
      assume vi: "is_vector (?D ! i)"
      show "length (custom_vec_outs_ptr fr' ! vector_pos ?D i)
              = length (out_slots info (ctx fr') i)"
      proof (cases "i = k")
        case True
        with p lv1 c' show ?thesis by (simp add: nth_append)
      next
        case False
        with i have ik: "i < k" by simp
        from vector_pos_less [OF ik k(2) vi] lv1
        have "vector_pos ?D i < length (custom_vec_outs_ptr fr1)" by simp
        with p e_len [OF ik vi] c' show ?thesis by (simp add: nth_append)
      qed
    qed
    with p h1 hv1 c' c1 show ?thesis by simp
  qed
qed

lemma inputs_step_outs:
  "custom_outs fr = [] \<and> custom_vec_outs fr = [] \<and> custom_outs_ptr fr = []
     \<and> custom_vec_outs_ptr fr = [] \<Longrightarrow>
   custom_outs (state_of (inputs_step info i fr)) = []
     \<and> custom_vec_outs (state_of (inputs_step info i fr)) = []
     \<and> custom_outs_ptr (state_of (inputs_step info i fr)) = []
     \<and> custom_vec_outs_ptr (state_of (inputs_step info i fr)) = []"
  by (auto simp: inputs_step_def split: option.splits prod.splits)

lemma read_attr_outs:
  "custom_outs fr = [] \<and> custom_vec_outs fr = [] \<and> custom_outs_ptr fr = []
     \<and> custom_vec_outs_ptr fr = [] \<Longrightarrow>
   custom_outs (state_of (read_attr T i fr)) = []
     \<and> custom_vec_outs (state_of (read_attr T i fr)) = []
     \<and> custom_outs_ptr (state_of (read_attr T i fr)) = []
     \<and> custom_vec_outs_ptr (state_of (read_attr T i fr)) = []"
  by (auto simp: read_attr_def split: option.splits)

lemma attrs_step_outs:
  "custom_outs fr = [] \<and> custom_vec_outs fr = [] \<and> custom_outs_ptr fr = []
     \<and> custom_vec_outs_ptr fr = [] \<Longrightarrow>
   custom_outs (state_of (attrs_step info i fr)) = []
     \<and> custom_vec_outs (state_of (attrs_step info i fr)) = []
     \<and> custom_outs_ptr (state_of (attrs_step info i fr)) = []
     \<and> custom_vec_outs_ptr (state_of (attrs_step info i fr)) = []"
  using read_attr_outs [of fr] by (simp add: attrs_step_eq)

lemma marshal_Done:
  assumes "marshal info fr0 = Done fr"
  shows "\<exists>fr1 fr2. for_each (inputs_step info) [0..<length (input_defs info)] fr0 = Done fr1
           \<and> for_each (attrs_step info) [0..<length (attribute_defs info)] fr1 = Done fr2
           \<and> for_each (outputs_step info) [0..<length (output_defs info)] fr2 = Done fr"
  using assms by (auto simp: marshal_def and_then_def split: outcome.splits)

lemma marshal_Done_fit:
  assumes "marshal info (enter c m) = Done fr"
  shows "stacks_fit info fr (length (output_defs info)) \<and> same_but_inputs c (ctx fr)
         \<and> map impl (custom_outs fr) = custom_outs_ptr fr
         \<and> map (map impl) (custom_vec_outs fr) = custom_vec_outs_ptr fr"
proof -
  let ?P = "\<lambda>s :: ('a, 'b) frame. custom_outs s = [] \<and> custom_vec_outs s = []
              \<and> custom_outs_ptr s = [] \<and> custom_vec_outs_ptr s = []"
  from marshal_Done [OF assms] obtain fr1 fr2 where
    ins: "for_each (inputs_step info) [0..<length (input_defs info)] (enter c m) = Done fr1"
    and ats: "for_each (attrs_step info) [0..<length (attribute_defs info)] fr1 = Done fr2"
    and outs: "for_each (outputs_step info) [0..<length (output_defs info)] fr2 = Done fr"
    by blast
  have "?P (state_of (for_each (inputs_step info) [0..<length (input_defs info)] (enter c m)))"
    by (rule for_each_preserves [where P = ?P]) (erule inputs_step_outs, simp add: enter_def)
  with ins have p1: "?P fr1" by simp
  have "?P (state_of (for_each (attrs_step info) [0..<length (attribute_defs info)] fr1))"
    by (rule for_each_preserves [where P = ?P]) (erule attrs_step_outs, rule p1)
  with ats have p2: "?P fr2" by simp
  from p2 have e: "custom_outs_ptr fr2 = []" "custom_vec_outs_ptr fr2 = []"
    "custom_outs fr2 = []" "custom_vec_outs fr2 = []" by simp_all
  from outputs_loop [OF outs _ e]
  have "stacks_fit info fr (length (output_defs info))"
    and "map impl (custom_outs fr) = custom_outs_ptr fr"
    and "map (map impl) (custom_vec_outs fr) = custom_vec_outs_ptr fr"
    by simp_all
  moreover from marshal_ctx [of c info m] assms have "same_but_inputs c (ctx fr)" by simp
  ultimately show ?thesis by simp
qed

lemma call_user_kernel_fn_keeps:
  "ctx (call_user_kernel_fn d info fr) = ctx fr"
  "custom_outs_ptr (call_user_kernel_fn d info fr) = custom_outs_ptr fr"
  "custom_vec_outs_ptr (call_user_kernel_fn d info fr) = custom_vec_outs_ptr fr"
  by (simp_all add: call_user_kernel_fn_def split: prod.splits)

lemma stacks_fit_call:
  "stacks_fit info fr k \<Longrightarrow> stacks_fit info (call_user_kernel_fn d info fr) k"
  by (simp add: stacks_fit_def call_user_kernel_fn_keeps)

lemma out_slots_same: "output_range c' = output_range c \<Longrightarrow> out_slots info c' i = out_slots info c i"
  by (simp add: out_slots_def)

lemma outputs_independent_iff:
  "outputs_independent info c = independent_upto info c (length (output_defs info))"
  unfolding outputs_independent_def independent_upto_def list_all_iff
  by (simp add: Ball_def) blast

lemma retained_is_impl:
  assumes fit: "stacks_fit info fr (length (output_defs info))"
      and h: "map impl (custom_outs fr) = custom_outs_ptr fr"
      and hv: "map (map impl) (custom_vec_outs fr) = custom_vec_outs_ptr fr"
      and i: "i < length (output_defs info)"
  shows "retained info fr i =
           (if is_vector (output_defs info ! i)
            then map impl (custom_vec_outs fr ! vector_pos (output_defs info) i)
            else [impl (custom_outs fr ! scalar_pos (output_defs info) i)])"
proof (cases "is_vector (output_defs info ! i)")
  case True
  from fit have "length (custom_vec_outs_ptr fr)
                   = vector_pos (output_defs info) (length (output_defs info))"
    by (simp add: stacks_fit_def)
  with vector_pos_less [OF i _ True] hv
  have "vector_pos (output_defs info) i < length (custom_vec_outs fr)"
    by (metis le_refl length_map)
  then have "custom_vec_outs_ptr fr ! vector_pos (output_defs info) i
               = map impl (custom_vec_outs fr ! vector_pos (output_defs info) i)"
    using hv by (metis nth_map)
  with True show ?thesis by (simp add: retained_def)
next
  case False
  from fit have "length (custom_outs_ptr fr)
                   = scalar_pos (output_defs info) (length (output_defs info))"
    by (simp add: stacks_fit_def)
  with scalar_pos_less [OF i _ False] h
  have "scalar_pos (output_defs info) i < length (custom_outs fr)"
    by (metis le_refl length_map)
  then have "custom_outs_ptr fr ! scalar_pos (output_defs info) i
               = impl (custom_outs fr ! scalar_pos (output_defs info) i)"
    using h by (metis nth_map)
  with False show ?thesis by (simp add: retained_def)
qed

lemma RunKernelFunc_Done_invoked:
  assumes "RunKernelFunc cfg m c info = Done (c', tr)" and "invoked tr"
  shows "\<exists>fr fr'. marshal info (enter c m) = Done fr
           \<and> map_back info (call_user_kernel_fn default_DeviceContext info fr) = Done fr'
           \<and> c' = ctx fr'"
proof (cases "kernel_backend info = Backend_CPU cfg")
  case True
  with assms(1) show ?thesis
    by (auto simp: RunKernelFunc_def Let_def split: if_splits outcome.splits)
next
  case False
  with assms show ?thesis
    by (auto simp: RunKernelFunc_not_CPU invoked_def split: if_splits outcome.splits)
qed

text \<open>
  C1, as amended. Let \<^verbatim>\<open>RunKernelFunc\<close> return normally after calling the user
  function (so the backend is the CPU). For every output \<open>i\<close>, single or list-valued, at
  any position: if the user function left the handle (the handles) of output \<open>i\<close> bound
  to the shared tensor it was given, and no output declared before \<open>i\<close> shares a slot
  with it, then the slots of output \<open>i\<close> hold exactly the values its handles hold when
  the user function returns; nothing is asked of the other outputs. And when no two
  outputs share a slot, the write-back in forward order, which indexes the kept pointers by
  position, completes and leaves the same output slots as the reverse-order write-back of
  the code.
\<close>

theorem write_back_fidelity:
  "RunKernelFunc cfg m c info = Done (c', tr) \<and> invoked tr \<longrightarrow>
     (\<forall>i<length (output_defs info).
        handle_kept info m c i \<and> first_on_its_slots info c i \<longrightarrow>
          slot_values info c' i = written info (plugin_result info m c) i)
     \<and> (outputs_independent info c \<longrightarrow>
          caught (map_back_forward info (plugin_result info m c)) = None
          \<and> outputs (ctx (state_of (map_back_forward info (plugin_result info m c))))
              = outputs c')"
proof (intro impI)
  assume a: "RunKernelFunc cfg m c info = Done (c', tr) \<and> invoked tr"
  let ?n = "length (output_defs info)"
  from a RunKernelFunc_Done_invoked [of cfg m c info c' tr] obtain fr frB where
    mar: "marshal info (enter c m) = Done fr"
    and wbk: "map_back info (call_user_kernel_fn default_DeviceContext info fr) = Done frB"
    and c': "c' = ctx frB"
    by blast
  let ?fr' = "call_user_kernel_fn default_DeviceContext info fr"
  have pr: "plugin_result info m c = ?fr'" by (simp add: plugin_result_def mar)
  from marshal_Done_fit [OF mar] have fit: "stacks_fit info fr ?n"
    and same: "same_but_inputs c (ctx fr)"
    and h: "map impl (custom_outs fr) = custom_outs_ptr fr"
    and hv: "map (map impl) (custom_vec_outs fr) = custom_vec_outs_ptr fr"
    by simp_all
  have fit': "stacks_fit info ?fr' ?n" using fit by (rule stacks_fit_call)
  have ret': "retained info ?fr' i = retained info fr i" for i
    by (rule retained_same) (simp_all add: call_user_kernel_fn_keeps)
  from same have rng: "output_range (ctx ?fr') = output_range c"
    by (simp add: same_but_inputs_def call_user_kernel_fn_keeps)
  have slots: "out_slots info (ctx ?fr') i = out_slots info c i" for i
    using rng by (rule out_slots_same)
  from map_back_loop [OF fit'] wbk obtain new where
    cnew: "ctx frB = (ctx ?fr')\<lparr>outputs := new\<rparr>"
    and wb: "written_back_rev info ?fr' ?n (outputs (ctx ?fr')) new"
    by (auto simp: map_back_def)
  have fid: "slot_values info c' i = written info ?fr' i"
    if i: "i < ?n" and kept: "handle_kept info m c i"
      and first: "first_on_its_slots info c i" for i
  proof -
    from first have "\<forall>j<i. set (out_slots info (ctx ?fr') j)
                           \<inter> set (out_slots info (ctx ?fr') i) = {}"
      by (simp add: first_on_its_slots_def list_all_iff slots)
    with wb i have hit: "map (\<lambda>s. new ! s) (out_slots info (ctx ?fr') i)
                           = map (cells (mem ?fr')) (retained info ?fr' i)"
      by (simp add: written_back_rev_def)
    have "out_slots info c' i = out_slots info (ctx ?fr') i"
      by (simp add: c' cnew)
    then have "slot_values info c' i = map (\<lambda>s. new ! s) (out_slots info (ctx ?fr') i)"
      by (simp add: slot_values_def c' cnew)
    also note hit
    also have "map (cells (mem ?fr')) (retained info ?fr' i) = written info ?fr' i"
    proof (cases "is_vector (output_defs info ! i)")
      case True
      with kept have "custom_vec_outs ?fr' ! vector_pos (output_defs info) i
                        = custom_vec_outs fr ! vector_pos (output_defs info) i"
        by (simp add: handle_kept_def pr mar)
      with True retained_is_impl [OF fit h hv i] show ?thesis
        by (simp add: ret' written_def comp_def)
    next
      case False
      with kept have "custom_outs ?fr' ! scalar_pos (output_defs info) i
                        = custom_outs fr ! scalar_pos (output_defs info) i"
        by (simp add: handle_kept_def pr mar)
      with False retained_is_impl [OF fit h hv i] show ?thesis
        by (simp add: ret' written_def)
    qed
    finally show ?thesis .
  qed
  have order: "caught (map_back_forward info ?fr') = None
          \<and> outputs (ctx (state_of (map_back_forward info ?fr'))) = outputs c'"
    if "outputs_independent info c"
  proof -
    from that have "independent_upto info c ?n" by (simp add: outputs_independent_iff)
    then have ind: "independent_upto info (ctx ?fr') ?n"
      by (simp add: independent_upto_def slots)
    from map_back_forward_loop [OF fit' ind le_refl] obtain frF newF where
      fwd: "map_back_forward info ?fr' = Done frF"
      and cF: "ctx frF = (ctx ?fr')\<lparr>outputs := newF\<rparr>"
      and wbF: "written_back info ?fr' ?n (outputs (ctx ?fr')) newF"
      by (auto simp: map_back_forward_def)
    from written_back_rev_independent [OF wb ind]
    have "written_back info ?fr' ?n (outputs (ctx ?fr')) new" .
    from written_back_unique [OF wbF this] have "newF = new" .
    with fwd cF c' cnew show ?thesis by simp
  qed
  from fid order pr
  show "(\<forall>i<length (output_defs info).
        handle_kept info m c i \<and> first_on_its_slots info c i \<longrightarrow>
          slot_values info c' i = written info (plugin_result info m c) i)
     \<and> (outputs_independent info c \<longrightarrow>
          caught (map_back_forward info (plugin_result info m c)) = None
          \<and> outputs (ctx (state_of (map_back_forward info (plugin_result info m c))))
              = outputs c')"
    by simp
qed

lemma Done_pair_state_of: "caught r = None \<Longrightarrow> r = Done (fst (state_of r), snd (state_of r))"
  by (cases r) simp_all

lemmas c1_defs = plugin_result_def written_def slot_values_def out_slots_def scalar_pos_def
  vector_pos_def handle_kept_def first_on_its_slots_def outputs_independent_def invoked_def
  rebinding_kernel_def rebinding_info_def rebinding_ctx_def map_back_forward_def
  map_back_forward_step_def

lemmas marker_defs = marker_kernel_def marker_info_def marker_ctx_def

lemma marker_completes:
  "RunKernelFunc cpu_build blank_heap marker_ctx marker_info =
     Done (fst (state_of (RunKernelFunc cpu_build blank_heap marker_ctx marker_info)),
           snd (state_of (RunKernelFunc cpu_build blank_heap marker_ctx marker_info)))"
  by (rule Done_pair_state_of) (simp add: model_defs demo_defs marker_defs)

lemma marker_conditions:
  "handle_kept marker_info blank_heap marker_ctx 0"
  "handle_kept marker_info blank_heap marker_ctx 1"
  "handle_kept marker_info blank_heap marker_ctx 2"
  "handle_kept marker_info blank_heap marker_ctx 3"
  "first_on_its_slots marker_info marker_ctx 0"
  "first_on_its_slots marker_info marker_ctx 1"
  "first_on_its_slots marker_info marker_ctx 2"
  "first_on_its_slots marker_info marker_ctx 3"
  "outputs_independent marker_info marker_ctx"
  "invoked (snd (state_of (RunKernelFunc cpu_build blank_heap marker_ctx marker_info)))"
  by (simp_all add: model_defs demo_defs c1_defs marker_defs)

lemma marker_written:
  "written marker_info (plugin_result marker_info blank_heap marker_ctx) 0 = [11]"
  "written marker_info (plugin_result marker_info blank_heap marker_ctx) 1 = [21, 22]"
  "written marker_info (plugin_result marker_info blank_heap marker_ctx) 2 = [31]"
  "written marker_info (plugin_result marker_info blank_heap marker_ctx) 3 = [41, 42, 43]"
  by (simp_all add: model_defs demo_defs c1_defs marker_defs)

theorem write_back_fidelity_witness:
  "handle_kept marker_info blank_heap marker_ctx 0
   \<and> first_on_its_slots marker_info marker_ctx 0
   \<and> handle_kept marker_info blank_heap marker_ctx 1
   \<and> first_on_its_slots marker_info marker_ctx 1
   \<and> handle_kept marker_info blank_heap marker_ctx 2
   \<and> first_on_its_slots marker_info marker_ctx 2
   \<and> handle_kept marker_info blank_heap marker_ctx 3
   \<and> first_on_its_slots marker_info marker_ctx 3
   \<and> outputs_independent marker_info marker_ctx
   \<and> caught (RunKernelFunc cpu_build blank_heap marker_ctx marker_info) = None
   \<and> invoked (snd (state_of (RunKernelFunc cpu_build blank_heap marker_ctx marker_info)))
   \<and> slot_values marker_info
        (fst (state_of (RunKernelFunc cpu_build blank_heap marker_ctx marker_info))) 0 = [11]
   \<and> slot_values marker_info
        (fst (state_of (RunKernelFunc cpu_build blank_heap marker_ctx marker_info))) 1 = [21, 22]
   \<and> slot_values marker_info
        (fst (state_of (RunKernelFunc cpu_build blank_heap marker_ctx marker_info))) 2 = [31]
   \<and> slot_values marker_info
        (fst (state_of (RunKernelFunc cpu_build blank_heap marker_ctx marker_info))) 3
       = [41, 42, 43]
   \<and> outputs (fst (state_of (RunKernelFunc cpu_build blank_heap marker_ctx marker_info)))
       = [11, 21, 22, 31, 41, 42, 43]
   \<and> outputs (ctx (state_of (map_back_forward marker_info
         (plugin_result marker_info blank_heap marker_ctx)))) = [11, 21, 22, 31, 41, 42, 43]"
  using write_back_fidelity
          [of cpu_build blank_heap marker_ctx marker_info
              "fst (state_of (RunKernelFunc cpu_build blank_heap marker_ctx marker_info))"
              "snd (state_of (RunKernelFunc cpu_build blank_heap marker_ctx marker_info))"]
        marker_completes marker_conditions marker_written
  by (simp add: model_defs demo_defs c1_defs marker_defs)

text \<open>
  In the context of the kernel that rebinds its first handle, the second output still has
  its handle and no earlier output on its slot: its slot holds what its handle holds.
\<close>

lemma rebinding_second_output_faithful:
  "handle_kept rebinding_info blank_heap rebinding_ctx 1
   \<and> first_on_its_slots rebinding_info rebinding_ctx 1
   \<and> slot_values rebinding_info
        (fst (state_of (RunKernelFunc cpu_build blank_heap rebinding_ctx rebinding_info))) 1 = [5]
   \<and> written rebinding_info (plugin_result rebinding_info blank_heap rebinding_ctx) 1 = [5]"
  by (simp add: model_defs demo_defs c1_defs)

text \<open>
  C1 as stated fails: the context satisfies the three size invariants, the call completes
  and calls the user function, and yet slot 0 holds the seed 10 where the first handle,
  rebound by the user function, holds 7; and slot 1, shared by the second and the third
  output, holds 5 where the third handle holds 6.
\<close>

theorem rebinding_counterexample:
  "size_invariants rebinding_ctx rebinding_info
   \<and> caught (RunKernelFunc cpu_build blank_heap rebinding_ctx rebinding_info) = None
   \<and> invoked (snd (state_of (RunKernelFunc cpu_build blank_heap rebinding_ctx rebinding_info)))
   \<and> slot_values rebinding_info
        (fst (state_of (RunKernelFunc cpu_build blank_heap rebinding_ctx rebinding_info))) 0 = [10]
   \<and> written rebinding_info (plugin_result rebinding_info blank_heap rebinding_ctx) 0 = [7]
   \<and> slot_values rebinding_info
        (fst (state_of (RunKernelFunc cpu_build blank_heap rebinding_ctx rebinding_info))) 2 = [5]
   \<and> written rebinding_info (plugin_result rebinding_info blank_heap rebinding_ctx) 2 = [6]"
  by (simp add: model_defs demo_defs c1_defs)

text \<open>
  Without independence the order matters: in the context whose second and third output
  share slot 1, the reverse-order write-back leaves 5 in that slot and the forward-order
  one leaves 6.
\<close>

lemma overlapping_outputs_order_matters:
  "\<not> outputs_independent rebinding_info rebinding_ctx
   \<and> outputs (fst (state_of (RunKernelFunc cpu_build blank_heap rebinding_ctx rebinding_info)))
       = [10, 5, 30]
   \<and> outputs (ctx (state_of (map_back_forward rebinding_info
         (plugin_result rebinding_info blank_heap rebinding_ctx)))) = [10, 6, 30]"
  by (simp add: model_defs demo_defs c1_defs)

end
